theory Spec2Isabelle
  imports Main "HOL-Library.Word"
begin

section \<open>Machine types and faults\<close>

text \<open>
  The code runs on a 64-bit target: \<open>size_t\<close> is a 64-bit unsigned integer whose
  arithmetic wraps around, \<open>int\<close> is a 32-bit two's complement integer, and a pixel
  component (\<open>uchar\<close>) is one byte.
\<close>

type_synonym size_t = "64 word"
type_synonym cint = "32 word"
type_synonym uchar = "8 word"

text \<open>
  Everything C++ leaves undefined, and every exception of a library call, is a value of
  \<open>fault\<close>: a call of the model returns \<open>Inl\<close> of a fault where the program has no
  defined result, and \<open>Inr\<close> of its result otherwise.
\<close>

datatype fault =
    NullPointer      \<comment> \<open>a null \<open>shared_ptr\<close> is dereferenced\<close>
  | BlobNotFound     \<comment> \<open>\<open>GetBlob\<close> is asked for a name the request does not have\<close>
  | OutOfBounds      \<comment> \<open>a vector or a blob's memory is accessed outside its extent\<close>
  | BadMatAccess     \<comment> \<open>\<open>Mat::at\<close> or \<open>Vec3b::operator[]\<close> is used outside its contract\<close>
  | ResizeFailed     \<comment> \<open>\<open>cv::resize\<close> throws\<close>
  | UndefinedConversion  \<comment> \<open>a \<open>float\<close> is converted to a type that cannot hold its value\<close>
  | SignedOverflow   \<comment> \<open>an \<open>int\<close> is incremented past \<open>INT_MAX\<close>\<close>
  | PreconditionViolation  \<comment> \<open>an operation is called in a state that does not allow it\<close>

definition INT_MAX :: int where
  "INT_MAX = 2147483647"

text \<open>A \<open>size_t\<close> passed where an \<open>int\<close> is expected keeps its low 32 bits.\<close>

definition to_int :: "size_t \<Rightarrow> int" where
  "to_int n = sint (ucast n :: cint)"

section \<open>Images and blobs\<close>

text \<open>
  A \<open>cv::Mat\<close> of two dimensions: its size, its element type (depth and channel count)
  and its bytes, stored row by row with the channels of a pixel next to each other.
\<close>

datatype cv_depth = CV_8U | CV_8S | CV_16U | CV_16S | CV_32S | CV_32F | CV_64F

record mat =
  mat_rows :: nat
  mat_cols :: nat
  mat_depth :: cv_depth
  mat_channels :: nat
  mat_data :: "uchar list"

text \<open>
  The representation invariant of a continuous matrix: \<open>rows\<close> and \<open>cols\<close> are
  non-negative \<open>int\<close>s and the data holds exactly the declared elements.
\<close>

definition wf_mat :: "mat \<Rightarrow> bool" where
  "wf_mat m \<longleftrightarrow>
     int (mat_rows m) \<le> INT_MAX \<and> int (mat_cols m) \<le> INT_MAX \<and>
     length (mat_data m) = mat_rows m * mat_cols m * mat_channels m"

type_synonym Vec3b = "uchar \<times> uchar \<times> uchar"

text \<open>
  \<open>m.at<cv::Vec3b>(i0, i1)\<close>: the three bytes of the pixel in row \<open>i0\<close>, column
  \<open>i1\<close>. OpenCV defines it for a matrix whose elements are \<open>Vec3b\<close>s (three 8-bit
  channels) and for indices inside the matrix.
\<close>

definition at_Vec3b :: "mat \<Rightarrow> int \<Rightarrow> int \<Rightarrow> fault + Vec3b" where
  "at_Vec3b m i0 i1 =
     (let p = (nat i0 * mat_cols m + nat i1) * 3 in
      if mat_depth m = CV_8U \<and> mat_channels m = 3 \<and>
         0 \<le> i0 \<and> i0 < int (mat_rows m) \<and> 0 \<le> i1 \<and> i1 < int (mat_cols m) \<and>
         p + 3 \<le> length (mat_data m)
      then Inr (mat_data m ! p, mat_data m ! (p + 1), mat_data m ! (p + 2))
      else Inl BadMatAccess)"

text \<open>\<open>v[c]\<close> on a \<open>Vec3b\<close>: component \<open>c\<close>, which exists for \<open>c\<close> in 0, 1, 2.\<close>

definition vec3b_at :: "Vec3b \<Rightarrow> size_t \<Rightarrow> fault + uchar" where
  "vec3b_at v c =
     (case v of (v0, v1, v2) \<Rightarrow>
        if c = 0 then Inr v0 else if c = 1 then Inr v1 else if c = 2 then Inr v2
        else Inl BadMatAccess)"

text \<open>
  An \<open>InferenceEngine::Blob\<close> with elements of type \<open>'a\<close> (the template parameter
  \<open>T\<close>): the dimensions of its tensor descriptor and its memory.
\<close>

record 'a blob =
  blob_dims :: "size_t list"
  blob_data :: "'a list"

text \<open>\<open>blob_data[i] = v\<close>, defined when \<open>i\<close> lies inside the blob's memory.\<close>

definition blob_write :: "'a list \<Rightarrow> size_t \<Rightarrow> 'a \<Rightarrow> fault + 'a list" where
  "blob_write buf i v =
     (if unat i < length buf then Inr (buf[unat i := v]) else Inl OutOfBounds)"

section \<open>Loading a frame into a blob: \<open>matU8ToBlob\<close>\<close>

text \<open>
  A counting loop \<open>for (size_t k = 0; k < n; k++) body(k)\<close> over a state that a
  fault ends: \<open>for_loop n body s\<close> runs \<open>body 0\<close>, \<dots>, \<open>body (n - 1)\<close> in this order.
\<close>

fun for_loop :: "nat \<Rightarrow> (nat \<Rightarrow> 's \<Rightarrow> fault + 's) \<Rightarrow> 's \<Rightarrow> fault + 's" where
  "for_loop 0 body s = Inr s"
| "for_loop (Suc n) body s =
     (case for_loop n body s of Inl e \<Rightarrow> Inl e | Inr s' \<Rightarrow> body n s')"

text \<open>
  \<open>int batchOffset = batch_index * width * height * channels\<close>: the product is
  computed in \<open>size_t\<close> (the \<open>int\<close> is sign-extended) and then narrowed to \<open>int\<close>.
\<close>

definition batchOffset :: "cint \<Rightarrow> size_t \<Rightarrow> size_t \<Rightarrow> size_t \<Rightarrow> cint" where
  "batchOffset batch_index width height channels =
     ucast (scast batch_index * width * height * channels)"

text \<open>
  The subscript \<open>batchOffset + c * width * height + h * width + w\<close>, computed in
  \<open>size_t\<close> after the \<open>int\<close> is sign-extended.
\<close>

definition blob_index ::
  "cint \<Rightarrow> size_t \<Rightarrow> size_t \<Rightarrow> size_t \<Rightarrow> size_t \<Rightarrow> size_t \<Rightarrow> size_t" where
  "blob_index bo width height c h w = scast bo + c * width * height + h * width + w"

text \<open>
  The loop body: \<open>blob_data[...] = resized_image.at<cv::Vec3b>(h, w)[c] * scale_factor\<close>.
  The product of a byte and the \<open>float\<close> scale factor, converted to \<open>T\<close>, is the
  parameter \<open>mul\<close>. It is \<open>None\<close> where the conversion to \<open>T\<close> is undefined: the
  product, truncated, is a value that an integral \<open>T\<close> cannot hold. The right-hand side
  is evaluated before the store.
\<close>

definition store_pixel ::
  "(uchar \<Rightarrow> 'f \<Rightarrow> 'a option) \<Rightarrow> mat \<Rightarrow> 'f \<Rightarrow> cint \<Rightarrow> size_t \<Rightarrow> size_t \<Rightarrow>
   nat \<Rightarrow> nat \<Rightarrow> nat \<Rightarrow> 'a list \<Rightarrow> fault + 'a list" where
  "store_pixel mul img scale_factor bo width height c h w buf =
     (case at_Vec3b img (to_int (of_nat h)) (to_int (of_nat w)) of
        Inl e \<Rightarrow> Inl e
      | Inr px \<Rightarrow>
          (case vec3b_at px (of_nat c) of
             Inl e \<Rightarrow> Inl e
           | Inr v \<Rightarrow>
               (case mul v scale_factor of
                  None \<Rightarrow> Inl UndefinedConversion
                | Some x \<Rightarrow>
                    blob_write buf
                      (blob_index bo width height (of_nat c) (of_nat h) (of_nat w)) x)))"

text \<open>The three nested loops over channels, rows and columns.\<close>

definition load_pixels ::
  "(uchar \<Rightarrow> 'f \<Rightarrow> 'a option) \<Rightarrow> mat \<Rightarrow> 'f \<Rightarrow> cint \<Rightarrow> size_t \<Rightarrow> size_t \<Rightarrow> size_t \<Rightarrow>
   'a list \<Rightarrow> fault + 'a list" where
  "load_pixels mul img scale_factor bo width height channels =
     for_loop (unat channels) (\<lambda>c.
       for_loop (unat height) (\<lambda>h.
         for_loop (unat width) (\<lambda>w.
           store_pixel mul img scale_factor bo width height c h w)))"

text \<open>
  The image the loops read: the frame itself, or, when its size is not the blob's, the
  result of \<open>cv::resize(orig_image, resized_image, cv::Size(width, height))\<close>. This
  call of the image library is the parameter \<open>resize\<close>, a function of the frame and
  of \<open>width\<close> and \<open>height\<close>; it may throw.
\<close>

definition resized_image ::
  "(mat \<Rightarrow> size_t \<Rightarrow> size_t \<Rightarrow> fault + mat) \<Rightarrow> mat \<Rightarrow> size_t \<Rightarrow> size_t \<Rightarrow> fault + mat" where
  "resized_image resize orig_image width height =
     (if width \<noteq> of_nat (mat_cols orig_image) \<or> height \<noteq> of_nat (mat_rows orig_image)
      then resize orig_image width height
      else Inr orig_image)"

definition matU8ToBlob ::
  "(mat \<Rightarrow> size_t \<Rightarrow> size_t \<Rightarrow> fault + mat) \<Rightarrow> (uchar \<Rightarrow> 'f \<Rightarrow> 'a option) \<Rightarrow>
   mat \<Rightarrow> 'a blob \<Rightarrow> 'f \<Rightarrow> cint \<Rightarrow> fault + 'a blob" where
  "matU8ToBlob resize mul orig_image blob scale_factor batch_index =
     (let blob_size = blob_dims blob in
      if length blob_size < 4 then Inl OutOfBounds
      else
        let width = blob_size ! 3; height = blob_size ! 2; channels = blob_size ! 1 in
        case resized_image resize orig_image width height of
          Inl e \<Rightarrow> Inl e
        | Inr img \<Rightarrow>
            (case load_pixels mul img scale_factor
                    (batchOffset batch_index width height channels)
                    width height channels (blob_data blob) of
               Inl e \<Rightarrow> Inl e
             | Inr buf \<Rightarrow> Inr (blob\<lparr>blob_data := buf\<rparr>)))"

text \<open>
  The product for \<open>T = u_int8_t\<close> and a scale factor that is a whole number \<open>k\<close>
  below 65536, given as a 16-bit word: 1.0 is \<open>k = 1\<close> and 2.0 is \<open>k = 2\<close>. Such a
  \<open>k\<close> is a \<open>float\<close>, and the \<open>float\<close> product of a byte and \<open>k\<close> is exact, since it
  is below \<open>2 ^ 24\<close>. Its conversion to \<open>u_int8_t\<close> is defined when the value is at
  most 255.
\<close>

definition scale_u8 :: "uchar \<Rightarrow> 16 word \<Rightarrow> uchar option" where
  "scale_u8 p k =
     (if unat p * unat k \<le> 255 then Some (of_nat (unat p * unat k)) else None)"

text \<open>
  The offset and the value of the specification: the destination offset
  \<open>batch_index * width * height * channels + c * width * height + h * width + w\<close>
  over the natural numbers, and component \<open>c\<close> of the source pixel in row \<open>h\<close>,
  column \<open>w\<close>.
\<close>

definition dest_offset :: "nat \<Rightarrow> nat \<Rightarrow> nat \<Rightarrow> nat \<Rightarrow> nat \<Rightarrow> nat \<Rightarrow> nat \<Rightarrow> nat" where
  "dest_offset batch_index width height channels c h w =
     batch_index * width * height * channels + c * width * height + h * width + w"

definition source_pixel :: "mat \<Rightarrow> nat \<Rightarrow> nat \<Rightarrow> nat \<Rightarrow> uchar" where
  "source_pixel m h w c = mat_data m ! ((h * mat_cols m + w) * mat_channels m + c)"

text \<open>
  The loop invariant of the three loops: the buffer has kept its length, every position
  before \<open>(c, h, w)\<close> in the order of the loops holds its value, and nothing outside
  \<open>lo ..< hi\<close> has changed.
\<close>

definition loaded_upto ::
  "(nat \<Rightarrow> nat \<Rightarrow> nat \<Rightarrow> nat) \<Rightarrow> (nat \<Rightarrow> nat \<Rightarrow> nat \<Rightarrow> 'a) \<Rightarrow> nat \<Rightarrow> nat \<Rightarrow> nat \<Rightarrow> nat \<Rightarrow>
   'a list \<Rightarrow> nat \<Rightarrow> nat \<Rightarrow> nat \<Rightarrow> 'a list \<Rightarrow> bool" where
  "loaded_upto idx val Hn Wn lo hi buf0 c h w buf \<longleftrightarrow>
     length buf = length buf0 \<and>
     (\<forall>c' h' w'. h' < Hn \<longrightarrow> w' < Wn \<longrightarrow>
        (c' < c \<or> c' = c \<and> (h' < h \<or> h' = h \<and> w' < w)) \<longrightarrow>
        buf ! idx c' h' w' = val c' h' w') \<and>
     (\<forall>j. j < lo \<or> hi \<le> j \<longrightarrow> buf ! j = buf0 ! j)"

text \<open>A resampling routine that always throws: it shows whether \<open>cv::resize\<close> is called.\<close>

definition resize_unavailable :: "mat \<Rightarrow> size_t \<Rightarrow> size_t \<Rightarrow> fault + mat" where
  "resize_unavailable m w h = Inl ResizeFailed"

text \<open>
  The test image of the specification as a frame of the engine: two rows and two columns
  of three 8-bit channels whose first channel holds 10, 20, 30, 40; and a blob of one
  2 x 2 plane of one channel.
\<close>

definition frame_2x2 :: mat where
  "frame_2x2 =
     \<lparr>mat_rows = 2, mat_cols = 2, mat_depth = CV_8U, mat_channels = 3,
      mat_data = [10, 11, 12, 20, 21, 22, 30, 31, 32, 40, 41, 42]\<rparr>"

definition blob_2x2 :: "uchar blob" where
  "blob_2x2 = \<lparr>blob_dims = [1, 1, 2, 2], blob_data = [0, 0, 0, 0]\<rparr>"

text \<open>
  A large input: a uniform frame of 32768 x 32768 pixels and a blob for a batch of two
  such frames of three channels.
\<close>

definition frame_large :: mat where
  "frame_large =
     \<lparr>mat_rows = 32768, mat_cols = 32768, mat_depth = CV_8U, mat_channels = 3,
      mat_data = replicate (32768 * 32768 * 3) 100\<rparr>"

definition blob_large :: "uchar blob" where
  "blob_large =
     \<lparr>blob_dims = [2, 3, 32768, 32768], blob_data = replicate (2 * 3 * 32768 * 32768) 0\<rparr>"

text \<open>
  A uniform frame of 4 x 4 pixels of the value 100, and the resampling of a uniform
  image of the value \<open>v\<close>: the uniform image of the requested size, which is what every
  resampling policy yields on such an image.
\<close>

definition frame_uniform_4x4 :: mat where
  "frame_uniform_4x4 =
     \<lparr>mat_rows = 4, mat_cols = 4, mat_depth = CV_8U, mat_channels = 3,
      mat_data = replicate 48 100\<rparr>"

definition resize_uniform :: "uchar \<Rightarrow> mat \<Rightarrow> size_t \<Rightarrow> size_t \<Rightarrow> fault + mat" where
  "resize_uniform v m w h =
     (if w = 0 \<or> h = 0 \<or> INT_MAX < uint w \<or> INT_MAX < uint h then Inl ResizeFailed
      else
        Inr \<lparr>mat_rows = unat h, mat_cols = unat w, mat_depth = mat_depth m,
             mat_channels = mat_channels m,
             mat_data = replicate (unat h * unat w * mat_channels m) v\<rparr>)"

definition frame_uniform_2x2 :: mat where
  "frame_uniform_2x2 =
     \<lparr>mat_rows = 2, mat_cols = 2, mat_depth = CV_8U, mat_channels = 3,
      mat_data = replicate 12 100\<rparr>"

text \<open>
  A blob that declares four channels, and the test image stored with one channel only.
\<close>

definition blob_4ch :: "uchar blob" where
  "blob_4ch = \<lparr>blob_dims = [1, 4, 2, 2], blob_data = replicate 16 0\<rparr>"

definition frame_gray_2x2 :: mat where
  "frame_gray_2x2 =
     \<lparr>mat_rows = 2, mat_cols = 2, mat_depth = CV_8U, mat_channels = 1,
      mat_data = [10, 20, 30, 40]\<rparr>"

section \<open>The inference base class\<close>

datatype rect = Rect (rect_x: int) (rect_y: int) (rect_width: int) (rect_height: int)

text \<open>The member \<^verbatim>\<open>location_\<close> of a \<open>Result\<close>.\<close>

record result =
  location :: rect

text \<open>
  Modelled from the spec: the constructor \<open>Result(const cv::Rect& location)\<close> is
  declared in the header and defined outside it. A result is the value of the rectangle
  it is created from.
\<close>

definition Result :: "rect \<Rightarrow> result" where
  "Result loc = \<lparr>location = loc\<rparr>"

definition getLocation :: "result \<Rightarrow> rect" where
  "getLocation r = location r"

text \<open>
  Modelled from the spec: \<open>Engines::Engine\<close> is declared outside the header. The engine
  owns one request, and the request gives access to its blobs by name
  (\<open>getRequest() -> RequestHandle\<close>, \<open>RequestHandle.getBuffer(tensorName)\<close>);
  asking for a name the request does not have throws.
\<close>

record 'a Engine =
  request :: "string \<rightharpoonup> 'a blob"

definition GetBlob :: "'a Engine \<Rightarrow> string \<Rightarrow> fault + 'a blob" where
  "GetBlob e name = (case request e name of None \<Rightarrow> Inl BlobNotFound | Some b \<Rightarrow> Inr b)"

text \<open>
  The data members of \<open>BaseInference\<close>, named as in the source without the
  underscore at the end (\<open>engine\<close> is \<^verbatim>\<open>engine_\<close>, and so on). \<open>engine\<close> is a shared
  pointer: \<open>None\<close> is the null pointer. The two counters are \<open>int\<close>s.
\<close>

record 'a base_inference =
  results :: "result list"
  engine :: "'a Engine option"
  max_batch_size :: int
  enqueued_frames :: int
  results_fetched :: bool

text \<open>A freshly constructed object, by the member initialisers of the class.\<close>

definition BaseInference :: "'a base_inference" where
  "BaseInference =
     \<lparr>results = [], engine = None, max_batch_size = 1, enqueued_frames = 0,
      results_fetched = False\<rparr>"

definition getEngine :: "'a base_inference \<Rightarrow> 'a Engine option" where
  "getEngine st = engine st"

definition getEnqueuedNum :: "'a base_inference \<Rightarrow> int" where
  "getEnqueuedNum st = enqueued_frames st"

definition setMaxBatchSize :: "int \<Rightarrow> 'a base_inference \<Rightarrow> 'a base_inference" where
  "setMaxBatchSize n st = st\<lparr>max_batch_size := n\<rparr>"

text \<open>
  Modelled from the spec: \<open>loadEngine\<close> is declared in the header and defined outside
  it; it "attaches a backend to the core". Its argument is a shared pointer, which may
  be null.
\<close>

definition loadEngine :: "'a Engine option \<Rightarrow> 'a base_inference \<Rightarrow> 'a base_inference" where
  "loadEngine e st = st\<lparr>engine := e\<rparr>"

text \<open>
  The protected template \<open>enqueue<T>\<close>. Its rectangle parameter has no name in the
  source and is not used. The call returns \<open>false\<close> when the batch is full (after
  writing a warning to the log, which the model leaves out); otherwise it dereferences
  \<open>engine\<close>, fetches the blob \<open>input_name\<close>, loads the frame and counts it. The blob
  is shared with the request, so the request sees the loaded frame.
\<close>

definition enqueue ::
  "(mat \<Rightarrow> size_t \<Rightarrow> size_t \<Rightarrow> fault + mat) \<Rightarrow> (uchar \<Rightarrow> 'f \<Rightarrow> 'a option) \<Rightarrow>
   mat \<Rightarrow> rect \<Rightarrow> 'f \<Rightarrow> cint \<Rightarrow> string \<Rightarrow> 'a base_inference \<Rightarrow>
   fault + (bool \<times> 'a base_inference)" where
  "enqueue resize mul frame input_frame_loc scale_factor batch_index input_name st =
     (if enqueued_frames st = max_batch_size st then Inr (False, st)
      else
        case engine st of
          None \<Rightarrow> Inl NullPointer
        | Some e \<Rightarrow>
            (case GetBlob e input_name of
               Inl f \<Rightarrow> Inl f
             | Inr input_blob \<Rightarrow>
                 (case matU8ToBlob resize mul frame input_blob scale_factor batch_index of
                    Inl f \<Rightarrow> Inl f
                  | Inr loaded \<Rightarrow>
                      if enqueued_frames st = INT_MAX then Inl SignedOverflow
                      else
                        Inr (True,
                          st\<lparr>engine := Some (e\<lparr>request := (request e)(input_name \<mapsto> loaded)\<rparr>),
                             enqueued_frames := enqueued_frames st + 1\<rparr>))))"

section \<open>The request lifecycle\<close>

text \<open>
  Modelled from the spec: \<open>submitRequest\<close> and \<open>fetchResults\<close> are declared in the
  header and defined outside it. The specification gives the engine the states
  \<open>Idle\<close>, \<open>Enqueuing\<close> and \<open>Submitted\<close>; its state \<open>Fetched\<close> is \<open>Idle\<close> with the
  flag \<open>results_fetched\<close> set, since \<open>fetchResults\<close> "transitions to Idle" and
  \<open>enqueue\<close> is valid "only in Idle or Enqueuing". An operation called in a state that
  does not allow it is a precondition violation.
\<close>

datatype phase = Idle | Enqueuing | Submitted

record 'a core =
  inference :: "'a base_inference"
  phase :: phase

text \<open>
  Modelled from the spec: \<open>enqueue\<close> is "valid only in Idle or Enqueuing" and on success
  "transitions to Enqueuing"; what it does to the object is \<open>enqueue\<close> above.
\<close>

definition core_enqueue ::
  "(mat \<Rightarrow> size_t \<Rightarrow> size_t \<Rightarrow> fault + mat) \<Rightarrow> (uchar \<Rightarrow> 'f \<Rightarrow> 'a option) \<Rightarrow>
   mat \<Rightarrow> rect \<Rightarrow> 'f \<Rightarrow> cint \<Rightarrow> string \<Rightarrow> 'a core \<Rightarrow> fault + (bool \<times> 'a core)" where
  "core_enqueue resize mul frame input_frame_loc scale_factor batch_index input_name k =
     (if phase k = Submitted then Inl PreconditionViolation
      else
        case enqueue resize mul frame input_frame_loc scale_factor batch_index input_name
               (inference k) of
          Inl f \<Rightarrow> Inl f
        | Inr (ok, st) \<Rightarrow>
            Inr (ok, \<lparr>inference = st, phase = (if ok then Enqueuing else phase k)\<rparr>))"

text \<open>
  Modelled from the spec: \<open>submit()\<close> is "valid only in Enqueuing", "triggers backend
  execution and transitions to Submitted", and "fails if no backend is bound, or if the
  backend reports a start-execution failure"; the failure is the return value \<open>false\<close>.
  The backend's execution is the parameter \<open>execute\<close>.
\<close>

definition submitRequest ::
  "('a Engine \<Rightarrow> 'a Engine option) \<Rightarrow> 'a core \<Rightarrow> fault + (bool \<times> 'a core)" where
  "submitRequest execute k =
     (if phase k \<noteq> Enqueuing then Inl PreconditionViolation
      else
        case engine (inference k) of
          None \<Rightarrow> Inr (False, k)
        | Some e \<Rightarrow>
            (case execute e of
               None \<Rightarrow> Inr (False, k)
             | Some e' \<Rightarrow>
                 Inr (True, \<lparr>inference = (inference k)\<lparr>engine := Some e'\<rparr>,
                             phase = Submitted\<rparr>)))"

text \<open>
  Modelled from the spec: \<open>fetchResults()\<close> is "valid only in Submitted"; it "parses the
  backend's named output tensor into zero or more Result records", "resets enqueued
  count to 0, sets an internal results-fetched flag, transitions to Idle". The parsing
  belongs to the subclasses and is the parameter \<open>parse\<close>.
\<close>

definition fetchResults ::
  "('a Engine \<Rightarrow> result list) \<Rightarrow> 'a core \<Rightarrow> fault + (bool \<times> 'a core)" where
  "fetchResults parse k =
     (if phase k \<noteq> Submitted then Inl PreconditionViolation
      else
        case engine (inference k) of
          None \<Rightarrow> Inl NullPointer
        | Some e \<Rightarrow>
            Inr (True,
              \<lparr>inference = (inference k)\<lparr>results := parse e, enqueued_frames := 0,
                                          results_fetched := True\<rparr>,
               phase = Idle\<rparr>))"

text \<open>
  A run of enqueue calls that all succeed: \<open>Some\<close> of the state they lead to, and
  \<open>None\<close> as soon as one call is rejected or faults. A call is its five arguments.
\<close>

type_synonym 'f enqueue_call = "mat \<times> rect \<times> 'f \<times> cint \<times> string"

fun enqueue_all ::
  "(mat \<Rightarrow> size_t \<Rightarrow> size_t \<Rightarrow> fault + mat) \<Rightarrow> (uchar \<Rightarrow> 'f \<Rightarrow> 'a option) \<Rightarrow>
   'f enqueue_call list \<Rightarrow> 'a core \<Rightarrow> 'a core option" where
  "enqueue_all resize mul [] k = Some k"
| "enqueue_all resize mul ((frame, loc, scale_factor, batch_index, input_name) # calls) k =
     (case core_enqueue resize mul frame loc scale_factor batch_index input_name k of
        Inr (True, k') \<Rightarrow> enqueue_all resize mul calls k'
      | _ \<Rightarrow> None)"

text \<open>
  An object for batches of two frames: its engine has the input blob \<open>data\<close> with two
  slots of one 2 x 2 plane. The backend used with it executes every request and its
  output is read as one result.
\<close>

definition blob_batch2 :: "uchar blob" where
  "blob_batch2 = \<lparr>blob_dims = [2, 1, 2, 2], blob_data = [0, 0, 0, 0, 0, 0, 0, 0]\<rparr>"

definition engine_batch2 :: "uchar Engine" where
  "engine_batch2 = \<lparr>request = [''data'' \<mapsto> blob_batch2]\<rparr>"

definition inference_batch2 :: "uchar base_inference" where
  "inference_batch2 = setMaxBatchSize 2 (loadEngine (Some engine_batch2) BaseInference)"

definition core_batch2 :: "uchar core" where
  "core_batch2 = \<lparr>inference = inference_batch2, phase = Idle\<rparr>"

definition execute_ok :: "'a Engine \<Rightarrow> 'a Engine option" where
  "execute_ok e = Some e"

definition parse_one :: "'a Engine \<Rightarrow> result list" where
  "parse_one e = [Result (Rect 0 0 2 2)]"

text \<open>
  Two calls that load the test image into the two slots, and the states of the object
  and of the lifecycle that they, a submit and a fetch lead to.
\<close>

definition call_first :: "16 word enqueue_call" where
  "call_first = (frame_2x2, Rect 0 0 2 2, 1, 0, ''data'')"

definition call_second :: "16 word enqueue_call" where
  "call_second = (frame_2x2, Rect 0 0 2 2, 2, 1, ''data'')"

definition blob_loaded1 :: "uchar blob" where
  "blob_loaded1 = \<lparr>blob_dims = [2, 1, 2, 2], blob_data = [10, 20, 30, 40, 0, 0, 0, 0]\<rparr>"

definition blob_loaded2 :: "uchar blob" where
  "blob_loaded2 = \<lparr>blob_dims = [2, 1, 2, 2], blob_data = [10, 20, 30, 40, 20, 40, 60, 80]\<rparr>"

definition inference_loaded1 :: "uchar base_inference" where
  "inference_loaded1 =
     \<lparr>results = [], engine = Some \<lparr>request = [''data'' \<mapsto> blob_loaded1]\<rparr>,
      max_batch_size = 2, enqueued_frames = 1, results_fetched = False\<rparr>"

definition inference_loaded2 :: "uchar base_inference" where
  "inference_loaded2 =
     \<lparr>results = [], engine = Some \<lparr>request = [''data'' \<mapsto> blob_loaded2]\<rparr>,
      max_batch_size = 2, enqueued_frames = 2, results_fetched = False\<rparr>"

definition core_loaded2 :: "uchar core" where
  "core_loaded2 = \<lparr>inference = inference_loaded2, phase = Enqueuing\<rparr>"

definition core_submitted :: "uchar core" where
  "core_submitted = \<lparr>inference = inference_loaded2, phase = Submitted\<rparr>"

definition inference_fetched :: "uchar base_inference" where
  "inference_fetched =
     \<lparr>results = [Result (Rect 0 0 2 2)],
      engine = Some \<lparr>request = [''data'' \<mapsto> blob_loaded2]\<rparr>,
      max_batch_size = 2, enqueued_frames = 0, results_fetched = True\<rparr>"

definition core_fetched :: "uchar core" where
  "core_fetched = \<lparr>inference = inference_fetched, phase = Idle\<rparr>"

definition core_reloaded2 :: "uchar core" where
  "core_reloaded2 =
     \<lparr>inference = inference_fetched\<lparr>enqueued_frames := 2\<rparr>, phase = Enqueuing\<rparr>"

section \<open>The license plate model\<close>

text \<open>
  \<^verbatim>\<open>const int max_sequence_size_ = 88\<close>: "up to 88 items per license plate, ended
  with -1".
\<close>

definition max_sequence_size :: int where
  "max_sequence_size = 88"

definition getMaxSequenceSize :: int where
  "getMaxSequenceSize = max_sequence_size"

definition sentinel :: int where
  "sentinel = - 1"

text \<open>
  Modelled from the spec: the decoding of the model's output is defined outside the
  header. It reads the entries of one output sequence in order, stops "at the first
  sentinel/terminator value encountered", and reads "never past the declared maximum".
  \<open>decode_sequence n xs\<close> reads at most \<open>n\<close> entries of \<open>xs\<close>.
\<close>

fun decode_sequence :: "nat \<Rightarrow> int list \<Rightarrow> int list" where
  "decode_sequence 0 xs = []"
| "decode_sequence (Suc n) [] = []"
| "decode_sequence (Suc n) (x # xs) =
     (if x = sentinel then [] else x # decode_sequence n xs)"

definition decode_plate :: "int list \<Rightarrow> int list" where
  "decode_plate xs = decode_sequence (nat getMaxSequenceSize) xs"

text \<open>An output sequence with the sentinel at position 3.\<close>

definition plate_output :: "int list" where
  "plate_output = [3, 4, 5, - 1, 7, 8]"

section \<open>Index arithmetic of \<open>matU8ToBlob\<close>\<close>

text \<open>
  Where the batch offset fits an \<open>int\<close> and the subscript fits a \<open>size_t\<close>, the
  subscript the code computes is the offset of the specification.
\<close>

lemma ucast_of_nat_narrow: "(ucast (of_nat n :: size_t) :: cint) = of_nat n"
  by (simp add: unsigned_of_nat word_of_nat_eq_iff take_bit_of_nat min_def)

lemma sint_of_nat_small: "n < 2 ^ 31 \<Longrightarrow> sint (of_nat n :: cint) = int n"
proof -
  assume a: "n < 2 ^ 31"
  have "sint (of_nat n :: cint) = sint (word_of_int (int n) :: cint)"
    by simp
  also have "\<dots> = signed_take_bit 31 (int n)"
    by (simp only: sint_sbintrunc') simp
  also have "\<dots> = int n"
    using a by (intro signed_take_bit_int_eq_self) auto
  finally show ?thesis .
qed

lemma scast_nonneg:
  fixes b :: cint
  assumes "0 \<le> sint b"
  shows "(scast b :: size_t) = of_nat (nat (sint b))"
proof -
  have 1: "(scast b :: size_t) = word_of_int (sint b)"
    by (rule scast_eq)
  have 2: "sint b = int (nat (sint b))"
    using assms by simp
  have 3: "(word_of_int (int (nat (sint b))) :: size_t) = of_nat (nat (sint b))"
    by (rule of_int_of_nat_eq)
  show ?thesis
    by (subst 1, subst 2, rule 3)
qed

lemma batchOffset_nat:
  assumes "0 \<le> sint b" and "nat (sint b) * unat W * unat H * unat C < 2 ^ 31"
  shows "(scast (batchOffset b W H C) :: size_t) = of_nat (nat (sint b) * unat W * unat H * unat C)"
proof -
  let ?B = "nat (sint b) * unat W * unat H * unat C"
  have sb: "scast b = (of_nat (nat (sint b)) :: size_t)"
    by (rule scast_nonneg [OF assms(1)])
  have "(of_nat ?B :: size_t) =
        of_nat (nat (sint b)) * of_nat (unat W) * of_nat (unat H) * of_nat (unat C)"
    by (simp only: of_nat_mult)
  also have "\<dots> = scast b * W * H * C"
    by (simp only: sb [symmetric] of_nat_unat ucast_id)
  finally have p: "scast b * W * H * C = (of_nat ?B :: size_t)"
    by (rule sym)
  have "batchOffset b W H C = (of_nat ?B :: cint)"
    unfolding batchOffset_def p by (rule ucast_of_nat_narrow)
  then have "sint (batchOffset b W H C) = int ?B"
    using assms(2) by (simp only: sint_of_nat_small)
  then have "(scast (batchOffset b W H C) :: size_t) = word_of_int (int ?B)"
    by (subst scast_eq) (rule arg_cong)
  then show ?thesis
    by (simp only: of_int_of_nat_eq)
qed

lemma blob_index_nat:
  assumes "0 \<le> sint b" and "nat (sint b) * unat W * unat H * unat C < 2 ^ 31"
    and "nat (sint b) * unat W * unat H * unat C + c * unat W * unat H + h * unat W + w < 2 ^ 64"
  shows "unat (blob_index (batchOffset b W H C) W H (of_nat c) (of_nat h) (of_nat w))
         = nat (sint b) * unat W * unat H * unat C + c * unat W * unat H + h * unat W + w"
proof -
  let ?B = "nat (sint b) * unat W * unat H * unat C"
  let ?n = "?B + c * unat W * unat H + h * unat W + w"
  have bo: "(scast (batchOffset b W H C) :: size_t) = of_nat ?B"
    using assms(1,2) by (rule batchOffset_nat)
  have "(of_nat ?n :: size_t) =
        of_nat ?B + of_nat c * of_nat (unat W) * of_nat (unat H) + of_nat h * of_nat (unat W) + of_nat w"
    by (simp only: of_nat_add of_nat_mult)
  also have "\<dots> = blob_index (batchOffset b W H C) W H (of_nat c) (of_nat h) (of_nat w)"
    unfolding blob_index_def bo by (simp only: of_nat_unat ucast_id)
  finally have "unat (blob_index (batchOffset b W H C) W H (of_nat c) (of_nat h) (of_nat w)) =
        unat (of_nat ?n :: size_t)"
    by (rule arg_cong [OF sym])
  also have "\<dots> = ?n"
    using assms(3) by (simp only: unat_of_nat) simp
  finally show ?thesis .
qed

lemma to_int_of_nat: "n < 2 ^ 31 \<Longrightarrow> to_int (of_nat n) = int n"
  by (simp add: to_int_def ucast_of_nat_narrow sint_of_nat_small)

lemma index_inj:
  fixes W H :: nat
  assumes "c * W * H + h * W + w = c' * W * H + h' * W + w'"
    and "w < W" "w' < W" "h < H" "h' < H"
  shows "c = c' \<and> h = h' \<and> w = w'"
proof -
  have e: "(c * H + h) * W + w = (c' * H + h') * W + w'"
    using assms(1) by (simp add: algebra_simps)
  have "((c * H + h) * W + w) div W = c * H + h" "((c * H + h) * W + w) mod W = w"
    using assms(2) by simp_all
  moreover have "((c' * H + h') * W + w') div W = c' * H + h'" "((c' * H + h') * W + w') mod W = w'"
    using assms(3) by simp_all
  ultimately have 1: "c * H + h = c' * H + h'" and 2: "w = w'"
    using e by metis+
  have "(c * H + h) div H = c" "(c * H + h) mod H = h" using assms(4) by simp_all
  moreover have "(c' * H + h') div H = c'" "(c' * H + h') mod H = h'" using assms(5) by simp_all
  ultimately have "c = c'" "h = h'" using 1 by metis+
  with 2 show ?thesis by simp
qed

section \<open>The loops of \<open>matU8ToBlob\<close>\<close>

text \<open>
  The rule of a counting loop: an invariant that holds at the start and that every
  iteration keeps, without a fault, holds at the end, and the loop ends without a fault.
\<close>

lemma for_loop_rule:
  assumes "I 0 s"
    and "\<And>k t. k < n \<Longrightarrow> I k t \<Longrightarrow> \<exists>t'. body k t = Inr t' \<and> I (Suc k) t'"
  shows "\<exists>t. for_loop n body s = Inr t \<and> I n t"
  using assms(2)
proof (induction n)
  case 0
  show ?case using assms(1) by simp
next
  case (Suc n)
  have "\<exists>t. for_loop n body s = Inr t \<and> I n t"
    by (rule Suc.IH) (simp add: Suc.prems)
  then obtain t where t: "for_loop n body s = Inr t" "I n t" by blast
  from Suc.prems [of n t] t(2) obtain t' where "body n t = Inr t'" "I (Suc n) t'"
    by auto
  with t(1) show ?case by simp
qed

lemma loaded_upto_start: "loaded_upto idx val Hn Wn lo hi buf0 0 0 0 buf0"
  by (simp add: loaded_upto_def)

lemma loaded_upto_row:
  "loaded_upto idx val Hn Wn lo hi buf0 c h Wn buf \<Longrightarrow>
   loaded_upto idx val Hn Wn lo hi buf0 c (Suc h) 0 buf"
  unfolding loaded_upto_def by (auto simp: less_Suc_eq)

lemma loaded_upto_plane:
  "loaded_upto idx val Hn Wn lo hi buf0 c Hn 0 buf \<Longrightarrow>
   loaded_upto idx val Hn Wn lo hi buf0 (Suc c) 0 0 buf"
  unfolding loaded_upto_def by (auto simp: less_Suc_eq)

lemma loaded_upto_step:
  assumes inv: "loaded_upto idx val Hn Wn lo hi buf0 c h w buf"
    and hw: "h < Hn" "w < Wn"
    and inj: "\<And>c' h' w'. h' < Hn \<Longrightarrow> w' < Wn \<Longrightarrow> idx c' h' w' = idx c h w \<Longrightarrow>
               c' = c \<and> h' = h \<and> w' = w"
    and rng: "lo \<le> idx c h w" "idx c h w < hi" "idx c h w < length buf0"
  shows "loaded_upto idx val Hn Wn lo hi buf0 c h (Suc w) (buf[idx c h w := val c h w])"
proof -
  have len: "length buf = length buf0"
    using inv by (simp add: loaded_upto_def)
  have old: "\<And>c' h' w'. h' < Hn \<Longrightarrow> w' < Wn \<Longrightarrow>
      (c' < c \<or> c' = c \<and> (h' < h \<or> h' = h \<and> w' < w)) \<Longrightarrow>
      buf ! idx c' h' w' = val c' h' w'"
    using inv unfolding loaded_upto_def by blast
  have out: "\<And>j. j < lo \<or> hi \<le> j \<Longrightarrow> buf ! j = buf0 ! j"
    using inv unfolding loaded_upto_def by blast
  have 1: "buf[idx c h w := val c h w] ! idx c' h' w' = val c' h' w'"
    if a: "h' < Hn" "w' < Wn" "c' < c \<or> c' = c \<and> (h' < h \<or> h' = h \<and> w' < Suc w)"
    for c' h' w'
  proof (cases "idx c' h' w' = idx c h w")
    case True
    then have "c' = c \<and> h' = h \<and> w' = w" using inj a(1,2) by blast
    then show ?thesis using rng(3) len by simp
  next
    case False
    then have "\<not> (c' = c \<and> h' = h \<and> w' = w)" by auto
    then have "c' < c \<or> c' = c \<and> (h' < h \<or> h' = h \<and> w' < w)"
      using a(3) by auto
    then have "buf ! idx c' h' w' = val c' h' w'" using old a(1,2) by blast
    then show ?thesis using False by simp
  qed
  have 2: "buf[idx c h w := val c h w] ! j = buf0 ! j" if "j < lo \<or> hi \<le> j" for j
  proof -
    have "j \<noteq> idx c h w" using that rng(1,2) by auto
    then show ?thesis using out that by simp
  qed
  show ?thesis
    unfolding loaded_upto_def using len 1 2 by simp
qed

text \<open>
  The offsets of one slot lie in the slot, and different positions have different
  offsets.
\<close>

lemma grid_less:
  fixes h w R K :: nat
  assumes "h < R" "w < K"
  shows "h * K + w < R * K"
proof -
  have "h * K + w < Suc h * K" using assms(2) by simp
  also have "\<dots> \<le> R * K" using assms(1) by (intro mult_le_mono1) simp
  finally show ?thesis .
qed

lemma dest_offset_bounds:
  assumes "c < Cn" "h < Hn" "w < Wn"
  shows "B * Wn * Hn * Cn \<le> dest_offset B Wn Hn Cn c h w"
    and "dest_offset B Wn Hn Cn c h w < B * Wn * Hn * Cn + Wn * Hn * Cn"
proof -
  show "B * Wn * Hn * Cn \<le> dest_offset B Wn Hn Cn c h w"
    by (simp add: dest_offset_def)
  have 1: "h * Wn + w < Hn * Wn" using assms(2,3) by (rule grid_less)
  have "c * (Hn * Wn) + (h * Wn + w) < Cn * (Hn * Wn)"
    using assms(1) 1 by (rule grid_less)
  then show "dest_offset B Wn Hn Cn c h w < B * Wn * Hn * Cn + Wn * Hn * Cn"
    by (simp add: dest_offset_def algebra_simps)
qed

lemma dest_offset_inj:
  assumes "dest_offset B Wn Hn Cn c h w = dest_offset B Wn Hn Cn c' h' w'"
    and "w < Wn" "w' < Wn" "h < Hn" "h' < Hn"
  shows "c = c' \<and> h = h' \<and> w = w'"
proof -
  have "c * Wn * Hn + h * Wn + w = c' * Wn * Hn + h' * Wn + w'"
    using assms(1) by (simp add: dest_offset_def)
  then show ?thesis using assms(2-5) by (rule index_inj)
qed

text \<open>One iteration of the innermost loop, and the three loops, on a well-formed input.\<close>

lemma vec3b_at_component:
  assumes "c < 3"
  shows "vec3b_at (xs ! p, xs ! (p + 1), xs ! (p + 2)) (of_nat c) = Inr (xs ! (p + c))"
proof -
  from assms consider "c = 0" | "c = 1" | "c = 2" by linarith
  then show ?thesis
    by cases (simp_all add: vec3b_at_def)
qed

lemma at_Vec3b_inside:
  assumes "wf_mat img" "mat_depth img = CV_8U" "mat_channels img = 3"
    and "h < mat_rows img" "w < mat_cols img"
  shows "at_Vec3b img (to_int (of_nat h)) (to_int (of_nat w)) =
         Inr (mat_data img ! ((h * mat_cols img + w) * 3),
              mat_data img ! ((h * mat_cols img + w) * 3 + 1),
              mat_data img ! ((h * mat_cols img + w) * 3 + 2))"
proof -
  have r: "mat_rows img < 2 ^ 31" and k: "mat_cols img < 2 ^ 31"
    using assms(1) by (simp_all add: wf_mat_def INT_MAX_def)
  have h: "to_int (of_nat h) = int h" using assms(4) r by (intro to_int_of_nat) simp
  have w: "to_int (of_nat w) = int w" using assms(5) k by (intro to_int_of_nat) simp
  have "h * mat_cols img + w < mat_rows img * mat_cols img"
    using assms(4,5) by (rule grid_less)
  then have "(h * mat_cols img + w) * 3 + 3 \<le> length (mat_data img)"
    using assms(1,3) by (simp add: wf_mat_def)
  then show ?thesis
    using assms(2-5) by (simp add: at_Vec3b_def h w Let_def)
qed

lemma store_pixel_inside:
  assumes "wf_mat img" "mat_depth img = CV_8U" "mat_channels img = 3"
    and "h < mat_rows img" "w < mat_cols img" "c < 3"
    and "0 \<le> sint b" "nat (sint b) * unat W * unat H * unat C < 2 ^ 31"
    and "dest_offset (nat (sint b)) (unat W) (unat H) (unat C) c h w < length buf"
    and "length buf < 2 ^ 64"
    and "mul (source_pixel img h w c) s = Some x"
  shows "store_pixel mul img s (batchOffset b W H C) W H c h w buf =
         Inr (buf[dest_offset (nat (sint b)) (unat W) (unat H) (unat C) c h w := x])"
proof -
  let ?i = "dest_offset (nat (sint b)) (unat W) (unat H) (unat C) c h w"
  have "?i < 2 ^ 64" using assms(9,10) by simp
  then have i: "unat (blob_index (batchOffset b W H C) W H (of_nat c) (of_nat h) (of_nat w)) = ?i"
    unfolding dest_offset_def using assms(7,8) by (intro blob_index_nat)
  have rd: "at_Vec3b img (to_int (of_nat h)) (to_int (of_nat w)) =
         Inr (mat_data img ! ((h * mat_cols img + w) * 3),
              mat_data img ! ((h * mat_cols img + w) * 3 + 1),
              mat_data img ! ((h * mat_cols img + w) * 3 + 2))"
    using assms(1-5) by (rule at_Vec3b_inside)
  have px: "mul (mat_data img ! ((h * mat_cols img + w) * 3 + c)) s = Some x"
    using assms(11) by (simp only: source_pixel_def assms(3))
  show ?thesis
    unfolding store_pixel_def rd
    by (simp only: sum.case vec3b_at_component [OF assms(6)] px option.case blob_write_def i
        assms(9) if_True)
qed

lemma load_pixels_inside:
  fixes mul :: "uchar \<Rightarrow> 'f \<Rightarrow> 'a option"
  assumes img: "wf_mat img" "mat_depth img = CV_8U" "mat_channels img = 3"
    and size: "mat_rows img = unat H" "mat_cols img = unat W"
    and ch: "unat C \<le> 3"
    and b: "0 \<le> sint b" "nat (sint b) * unat W * unat H * unat C < 2 ^ 31"
    and room: "nat (sint b) * unat W * unat H * unat C + unat W * unat H * unat C \<le> length buf0"
      "length buf0 < 2 ^ 64"
    and conv: "\<And>c h w. c < unat C \<Longrightarrow> h < unat H \<Longrightarrow> w < unat W \<Longrightarrow>
                 mul (source_pixel img h w c) s = Some (val c h w)"
  shows "\<exists>buf. load_pixels mul img s (batchOffset b W H C) W H C buf0 = Inr buf \<and>
           loaded_upto (dest_offset (nat (sint b)) (unat W) (unat H) (unat C))
             val (unat H) (unat W)
             (nat (sint b) * unat W * unat H * unat C)
             (nat (sint b) * unat W * unat H * unat C + unat W * unat H * unat C)
             buf0 (unat C) 0 0 buf"
proof -
  let ?idx = "dest_offset (nat (sint b)) (unat W) (unat H) (unat C)"
  let ?val = val
  let ?lo = "nat (sint b) * unat W * unat H * unat C"
  let ?hi = "?lo + unat W * unat H * unat C"
  let ?I = "loaded_upto ?idx ?val (unat H) (unat W) ?lo ?hi buf0"
  let ?px = "store_pixel mul img s (batchOffset b W H C) W H"
  have pixel: "\<exists>t'. ?px c h w t = Inr t' \<and> ?I c h (Suc w) t'"
    if c: "c < unat C" and h: "h < unat H" and w: "w < unat W" and inv: "?I c h w t"
    for c h w t
  proof -
    have len: "length t = length buf0"
      using inv by (simp add: loaded_upto_def)
    have lo: "?lo \<le> ?idx c h w" and hi: "?idx c h w < ?hi"
      using c h w by (rule dest_offset_bounds)+
    have inside: "?idx c h w < length buf0"
      using hi room(1) by linarith
    have "?px c h w t = Inr (t[?idx c h w := ?val c h w])"
    proof (rule store_pixel_inside)
      show "wf_mat img" "mat_depth img = CV_8U" "mat_channels img = 3"
        by (rule img)+
      show "h < mat_rows img" "w < mat_cols img"
        using h w size by simp_all
      show "c < 3" using c ch by linarith
      show "0 \<le> sint b" "nat (sint b) * unat W * unat H * unat C < 2 ^ 31"
        by (rule b)+
      show "?idx c h w < length t" using inside len by simp
      show "length t < 2 ^ 64" using room(2) len by simp
      show "mul (source_pixel img h w c) s = Some (val c h w)"
        using c h w by (rule conv)
    qed
    moreover have "?I c h (Suc w) (t[?idx c h w := ?val c h w])"
    proof (rule loaded_upto_step [OF inv h w _ lo hi inside])
      fix c' h' w'
      assume "h' < unat H" "w' < unat W" "?idx c' h' w' = ?idx c h w"
      then show "c' = c \<and> h' = h \<and> w' = w"
        using dest_offset_inj [of "nat (sint b)" "unat W" "unat H" "unat C" c' h' w' c h w] h w
        by simp
    qed
    ultimately show ?thesis by simp
  qed
  have row: "\<exists>t'. for_loop (unat W) (?px c h) t = Inr t' \<and> ?I c (Suc h) 0 t'"
    if c: "c < unat C" and h: "h < unat H" and inv: "?I c h 0 t" for c h t
  proof -
    have "\<exists>t'. for_loop (unat W) (?px c h) t = Inr t' \<and> ?I c h (unat W) t'"
      using inv pixel [OF c h] by (rule for_loop_rule [where I = "?I c h"])
    then show ?thesis
      using loaded_upto_row by blast
  qed
  have plane: "\<exists>t'. for_loop (unat H) (\<lambda>h. for_loop (unat W) (?px c h)) t = Inr t' \<and>
                 ?I (Suc c) 0 0 t'"
    if c: "c < unat C" and inv: "?I c 0 0 t" for c t
  proof -
    have "\<exists>t'. for_loop (unat H) (\<lambda>h. for_loop (unat W) (?px c h)) t = Inr t' \<and>
            ?I c (unat H) 0 t'"
      using inv row [OF c] by (rule for_loop_rule [where I = "\<lambda>h. ?I c h 0"])
    then show ?thesis
      using loaded_upto_plane by blast
  qed
  have "?I 0 0 0 buf0"
    by (rule loaded_upto_start)
  then have "\<exists>t. for_loop (unat C) (\<lambda>c. for_loop (unat H) (\<lambda>h. for_loop (unat W) (?px c h))) buf0
                = Inr t \<and> ?I (unat C) 0 0 t"
    using plane by (rule for_loop_rule [where I = "\<lambda>c. ?I c 0 0"])
  then show ?thesis
    by (simp only: load_pixels_def)
qed

lemma unat_of_nat_int_max:
  assumes "int n \<le> INT_MAX"
  shows "unat (of_nat n :: size_t) = n"
proof -
  have "n < 2 ^ 64" using assms by (simp add: INT_MAX_def)
  then show ?thesis by (simp only: unat_of_nat) simp
qed

lemma resized_image_same:
  assumes "W = of_nat (mat_cols img)" "H = of_nat (mat_rows img)"
  shows "resized_image resize img W H = Inr img"
  using assms by (simp add: resized_image_def)

lemma matU8ToBlob_unfold:
  assumes "blob_dims blob = [N, C, H, W]"
  shows "matU8ToBlob resize mul img blob s b =
     (case resized_image resize img W H of
        Inl e \<Rightarrow> Inl e
      | Inr m \<Rightarrow>
          (case load_pixels mul m s (batchOffset b W H C) W H C (blob_data blob) of
             Inl e \<Rightarrow> Inl e
           | Inr buf \<Rightarrow> Inr (blob\<lparr>blob_data := buf\<rparr>)))"
  using assms by (simp add: matU8ToBlob_def Let_def numeral_3_eq_3 numeral_2_eq_2)

text \<open>A fault in the first iteration is the result of the loop.\<close>

lemma for_loop_first_fault:
  assumes "0 < n" "body 0 s = Inl e"
  shows "for_loop n body s = Inl e"
  using assms(1)
proof (induction n)
  case 0
  then show ?case by simp
next
  case (Suc n)
  show ?case
  proof (cases "n = 0")
    case True
    then show ?thesis using assms(2) by simp
  next
    case False
    then have "for_loop n body s = Inl e" using Suc.IH by simp
    then show ?thesis by simp
  qed
qed

text \<open>
  The first store of the large input: the subscript is \<open>2 ^ 64 - 2 ^ 30\<close>, outside the
  blob.
\<close>

lemma blob_index_large:
  "unat (blob_index (batchOffset 1 32768 32768 3) 32768 32768 0 0 0) = 18446744072635809792"
  by (simp add: blob_index_def batchOffset_def)

lemma store_pixel_large:
  "store_pixel scale_u8 frame_large (1::16 word) (batchOffset 1 32768 32768 3)
     32768 32768 0 0 0 (blob_data blob_large) = Inl OutOfBounds"
  unfolding store_pixel_def
  by (simp add: at_Vec3b_def to_int_def frame_large_def vec3b_at_def scale_u8_def
      blob_write_def blob_index_large blob_large_def)


lemma load_pixels_large:
  "load_pixels scale_u8 frame_large (1::16 word) (batchOffset 1 32768 32768 3) 32768 32768 3
     (blob_data blob_large) = Inl OutOfBounds"
  unfolding load_pixels_def
  by (intro for_loop_first_fault store_pixel_large) simp_all

text \<open>
  What a fault and a normal end of a loop say about its body, and of \<open>matU8ToBlob\<close>
  about the pixels it read.
\<close>

lemma for_loop_fault:
  assumes "for_loop n body s = Inl e"
  shows "\<exists>k t. k < n \<and> body k t = Inl e"
  using assms
proof (induction n)
  case 0
  then show ?case by simp
next
  case (Suc n)
  show ?case
  proof (cases "for_loop n body s")
    case (Inl e')
    then have "e' = e" using Suc.prems by simp
    then obtain k t where "k < n" "body k t = Inl e" using Suc.IH Inl by blast
    then show ?thesis using less_Suc_eq by blast
  next
    case (Inr t)
    then have "body n t = Inl e" using Suc.prems by simp
    then show ?thesis by blast
  qed
qed

lemma for_loop_success:
  assumes "for_loop n body s = Inr t" "k < n"
  shows "\<exists>u u'. body k u = Inr u'"
  using assms
proof (induction n arbitrary: t)
  case 0
  then show ?case by simp
next
  case (Suc n)
  from Suc.prems(1) obtain t' where
    t': "for_loop n body s = Inr t'" and last: "body n t' = Inr t"
    by (auto split: sum.splits)
  show ?case
  proof (cases "k = n")
    case True
    then show ?thesis using last by blast
  next
    case False
    then have "k < n" using Suc.prems(2) by simp
    then show ?thesis using Suc.IH [OF t'] by blast
  qed
qed

lemma store_pixel_fault:
  assumes "store_pixel mul img s bo W H c h w buf = Inl e"
  shows "e = BadMatAccess \<or> e = UndefinedConversion \<or> e = OutOfBounds"
  using assms
  by (auto simp: store_pixel_def at_Vec3b_def vec3b_at_def blob_write_def Let_def
      split: sum.splits if_splits prod.splits option.splits)

lemma load_pixels_fault:
  assumes "load_pixels mul img s bo W H C buf = Inl e"
  shows "e = BadMatAccess \<or> e = UndefinedConversion \<or> e = OutOfBounds"
proof -
  from assms obtain c t where
    "for_loop (unat H) (\<lambda>h. for_loop (unat W) (store_pixel mul img s bo W H c h)) t = Inl e"
    unfolding load_pixels_def by (blast dest: for_loop_fault)
  then obtain h t' where "for_loop (unat W) (store_pixel mul img s bo W H c h) t' = Inl e"
    by (blast dest: for_loop_fault)
  then obtain w t'' where "store_pixel mul img s bo W H c h w t'' = Inl e"
    by (blast dest: for_loop_fault)
  then show ?thesis by (rule store_pixel_fault)
qed

lemma store_pixel_success:
  assumes "store_pixel mul img s bo W H c h w buf = Inr buf'"
  shows "\<exists>px v. at_Vec3b img (to_int (of_nat h)) (to_int (of_nat w)) = Inr px \<and>
                vec3b_at px (of_nat c) = Inr v"
  using assms
  by (auto simp: store_pixel_def split: sum.splits option.splits)

lemma load_pixels_success:
  assumes "load_pixels mul img s bo W H C buf = Inr buf'"
    and "c < unat C" "h < unat H" "w < unat W"
  shows "\<exists>px v. at_Vec3b img (to_int (of_nat h)) (to_int (of_nat w)) = Inr px \<and>
                vec3b_at px (of_nat c) = Inr v"
proof -
  from assms(1,2) obtain u u' where
    "for_loop (unat H) (\<lambda>h. for_loop (unat W) (store_pixel mul img s bo W H c h)) u = Inr u'"
    unfolding load_pixels_def by (blast dest: for_loop_success)
  with assms(3) obtain t t' where
    "for_loop (unat W) (store_pixel mul img s bo W H c h) t = Inr t'"
    by (blast dest: for_loop_success)
  with assms(4) obtain r r' where "store_pixel mul img s bo W H c h w r = Inr r'"
    by (blast dest: for_loop_success)
  then show ?thesis by (rule store_pixel_success)
qed

lemma at_Vec3b_type:
  assumes "at_Vec3b m i0 i1 = Inr px"
  shows "mat_depth m = CV_8U \<and> mat_channels m = 3"
  using assms by (auto simp: at_Vec3b_def Let_def split: if_splits)

lemma vec3b_at_range:
  assumes "vec3b_at px (of_nat c) = Inr v" "c < 2 ^ 64"
  shows "c < 3"
proof -
  have "(of_nat c :: size_t) = 0 \<or> (of_nat c :: size_t) = 1 \<or> (of_nat c :: size_t) = 2"
    using assms(1) by (auto simp: vec3b_at_def split: prod.splits if_splits)
  then have "unat (of_nat c :: size_t) = 0 \<or> unat (of_nat c :: size_t) = 1 \<or>
             unat (of_nat c :: size_t) = 2"
    by auto
  moreover have "unat (of_nat c :: size_t) = c"
    using assms(2) by (simp only: unat_of_nat) simp
  ultimately show ?thesis by auto
qed

lemma matU8ToBlob_same_size:
  assumes "blob_dims blob = [N, C, H, W]"
    and "W = of_nat (mat_cols img)" "H = of_nat (mat_rows img)"
  shows "matU8ToBlob resize mul img blob s b =
     (case load_pixels mul img s (batchOffset b W H C) W H C (blob_data blob) of
        Inl e \<Rightarrow> Inl e
      | Inr buf \<Rightarrow> Inr (blob\<lparr>blob_data := buf\<rparr>))"
  by (simp add: matU8ToBlob_unfold [OF assms(1)] resized_image_same [OF assms(2,3)])

lemma matU8ToBlob_other_size:
  assumes "blob_dims blob = [N, C, H, W]"
    and "W \<noteq> of_nat (mat_cols img) \<or> H \<noteq> of_nat (mat_rows img)"
  shows "matU8ToBlob resize mul img blob s b =
     (case resize img W H of
        Inl e \<Rightarrow> Inl e
      | Inr m \<Rightarrow>
          (case load_pixels mul m s (batchOffset b W H C) W H C (blob_data blob) of
             Inl e \<Rightarrow> Inl e
           | Inr buf \<Rightarrow> Inr (blob\<lparr>blob_data := buf\<rparr>)))"
  using assms(2) by (simp add: matU8ToBlob_unfold [OF assms(1)] resized_image_def)

text \<open>The conversion at the small example inputs.\<close>

lemma load_2x2:
  "matU8ToBlob resize_unavailable scale_u8 frame_2x2 blob_2x2 1 0 =
   Inr \<lparr>blob_dims = [1, 1, 2, 2], blob_data = [10, 20, 30, 40]\<rparr>"
  by code_simp

lemma load_uniform_2x2:
  "matU8ToBlob resize_unavailable scale_u8 frame_uniform_2x2 blob_2x2 1 0 =
   Inr \<lparr>blob_dims = [1, 1, 2, 2], blob_data = [100, 100, 100, 100]\<rparr>"
  by code_simp

lemma resize_uniform_4x4:
  "resize_uniform 100 frame_uniform_4x4 2 2 = Inr frame_uniform_2x2"
  by (simp add: resize_uniform_def INT_MAX_def frame_uniform_4x4_def frame_uniform_2x2_def)

lemma load_slot0:
  "matU8ToBlob resize_unavailable scale_u8 frame_2x2 blob_batch2 1 0 =
   Inr blob_loaded1"
  by code_simp

lemma load_slot1:
  "matU8ToBlob resize_unavailable scale_u8 frame_2x2 blob_loaded1 2 1 =
   Inr blob_loaded2"
  by code_simp

lemma reload_slot0:
  "matU8ToBlob resize_unavailable scale_u8 frame_2x2 blob_loaded2 1 0 =
   Inr blob_loaded2"
  by code_simp

lemma reload_slot1:
  "matU8ToBlob resize_unavailable scale_u8 frame_2x2 blob_loaded2 2 1 =
   Inr blob_loaded2"
  by code_simp

section \<open>Layout of the loaded frame\<close>

text \<open>
  The layout while the batch offset fits an \<open>int\<close>. Let the frame be a well-formed
  matrix of three 8-bit channels whose size is already the blob's width and height, let
  the blob have the dimensions N, C, H, W with at most three channels and hold its
  N * C * H * W elements, let the batch index be a slot of the blob (0 \<le> b < N), let
  b * W * H * C be below 2^31, and let the product of every pixel component that is
  read and the scale factor have a defined conversion to the element type. Then
  \<open>matU8ToBlob\<close> returns, and for every channel c < C, row h < H and column w < W
  the blob holds that converted product at the offset
  b * W * H * C + c * W * H + h * W + w; the blob keeps its length, and its elements
  outside slot b are unchanged.
\<close>

lemma matU8ToBlob_layout:
  fixes mul :: "uchar \<Rightarrow> 'f \<Rightarrow> 'a option"
  assumes frame: "wf_mat orig_image" "mat_depth orig_image = CV_8U" "mat_channels orig_image = 3"
    and dims: "blob_dims blob = [N, C, H, W]"
    and mem: "length (blob_data blob) = unat N * unat C * unat H * unat W"
      "length (blob_data blob) < 2 ^ 64"
    and same: "W = of_nat (mat_cols orig_image)" "H = of_nat (mat_rows orig_image)"
    and ch: "unat C \<le> 3"
    and slot: "0 \<le> sint batch_index" "nat (sint batch_index) < unat N"
    and fits: "nat (sint batch_index) * unat W * unat H * unat C < 2 ^ 31"
    and conv: "\<forall>c<unat C. \<forall>h<unat H. \<forall>w<unat W.
                 mul (source_pixel orig_image h w c) scale_factor \<noteq> None"
  shows "\<exists>buf.
           matU8ToBlob resize mul orig_image blob scale_factor batch_index =
             Inr (blob\<lparr>blob_data := buf\<rparr>) \<and>
           length buf = length (blob_data blob) \<and>
           (\<forall>c<unat C. \<forall>h<unat H. \<forall>w<unat W.
              mul (source_pixel orig_image h w c) scale_factor =
              Some (buf ! dest_offset (nat (sint batch_index)) (unat W) (unat H) (unat C) c h w)) \<and>
           (\<forall>j. j < dest_offset (nat (sint batch_index)) (unat W) (unat H) (unat C) 0 0 0 \<or>
                dest_offset (nat (sint batch_index) + 1) (unat W) (unat H) (unat C) 0 0 0 \<le> j \<longrightarrow>
                buf ! j = blob_data blob ! j)"
proof -
  let ?b = "nat (sint batch_index)"
  let ?lo = "?b * unat W * unat H * unat C"
  let ?hi = "?lo + unat W * unat H * unat C"
  let ?val = "\<lambda>c h w. the (mul (source_pixel orig_image h w c) scale_factor)"
  have rows: "mat_rows orig_image = unat H" and cols: "mat_cols orig_image = unat W"
    using frame(1) same by (simp_all add: wf_mat_def unat_of_nat_int_max)
  have "Suc ?b * (unat W * unat H * unat C) \<le> unat N * (unat W * unat H * unat C)"
    using slot(2) by (intro mult_le_mono1) simp
  then have room: "?hi \<le> length (blob_data blob)"
    by (simp add: mem(1) algebra_simps)
  have some: "mul (source_pixel orig_image h w c) scale_factor = Some (?val c h w)"
    if "c < unat C" "h < unat H" "w < unat W" for c h w
    using conv that by simp
  have "\<exists>buf. load_pixels mul orig_image scale_factor (batchOffset batch_index W H C) W H C
            (blob_data blob) = Inr buf \<and>
          loaded_upto (dest_offset ?b (unat W) (unat H) (unat C)) ?val (unat H) (unat W)
            ?lo ?hi (blob_data blob) (unat C) 0 0 buf"
    using frame rows cols ch slot(1) fits room mem(2) some by (rule load_pixels_inside)
  then obtain buf where
    run: "load_pixels mul orig_image scale_factor (batchOffset batch_index W H C) W H C
            (blob_data blob) = Inr buf"
    and inv: "loaded_upto (dest_offset ?b (unat W) (unat H) (unat C)) ?val (unat H) (unat W)
            ?lo ?hi (blob_data blob) (unat C) 0 0 buf"
    by blast
  have res: "matU8ToBlob resize mul orig_image blob scale_factor batch_index =
             Inr (blob\<lparr>blob_data := buf\<rparr>)"
    by (simp add: matU8ToBlob_unfold [OF dims] resized_image_same [OF same] run)
  have len: "length buf = length (blob_data blob)"
    using inv by (simp add: loaded_upto_def)
  have at: "buf ! dest_offset ?b (unat W) (unat H) (unat C) c h w = ?val c h w"
    if "c < unat C" "h < unat H" "w < unat W" for c h w
    using inv that unfolding loaded_upto_def by blast
  have vals: "mul (source_pixel orig_image h w c) scale_factor =
              Some (buf ! dest_offset ?b (unat W) (unat H) (unat C) c h w)"
    if "c < unat C" "h < unat H" "w < unat W" for c h w
    using some [OF that] at [OF that] by simp
  have rest: "buf ! j = blob_data blob ! j" if "j < ?lo \<or> ?hi \<le> j" for j
    using inv that unfolding loaded_upto_def by blast
  have lo: "dest_offset ?b (unat W) (unat H) (unat C) 0 0 0 = ?lo"
    and hi: "dest_offset (?b + 1) (unat W) (unat H) (unat C) 0 0 0 = ?hi"
    by (simp_all add: dest_offset_def algebra_simps)
  show ?thesis
    using res len vals rest unfolding lo hi by blast
qed

text \<open>
  The test image of the specification: the 2 x 2 image with the values 10, 20, 30, 40
  and batch index 0 give the buffer 10, 20, 30, 40 with the scale factor 1.0
  (\<open>load_2x2\<close> above) and 20, 40, 60, 80 with the scale factor 2.0.
\<close>

lemma matU8ToBlob_layout_scale_2:
  "matU8ToBlob resize_unavailable scale_u8 frame_2x2 blob_2x2 2 0 =
     Inr \<lparr>blob_dims = [1, 1, 2, 2], blob_data = [20, 40, 60, 80]\<rparr>"
  by code_simp

text \<open>
  A product that the element type cannot hold has no defined conversion: 200 * 2.0 is
  400, and with the scale factor 7.0 the pixel 40 of the test image gives 280.
\<close>

lemma scale_u8_undefined: "scale_u8 200 2 = None"
  by (simp add: scale_u8_def)

lemma matU8ToBlob_undefined_conversion:
  "matU8ToBlob resize_unavailable scale_u8 frame_2x2 blob_2x2 7 0 = Inl UndefinedConversion"
  by code_simp

text \<open>
  A batch index that is no slot of the blob gives no defined result: the blob of one
  2 x 2 plane has no slot 1.
\<close>

lemma load_beyond_batch:
  "matU8ToBlob resize_unavailable scale_u8 frame_2x2 blob_2x2 1 1 = Inl OutOfBounds"
  by code_simp

text \<open>
  Claim C2 says that the conversion writes the scaled component c of the source pixel
  (h, w) at the offset b * W * H * C + c * W * H + h * W + w, for every batch index b.
  The code computes this offset, but it keeps b * W * H * C in the \<open>int\<close>
  \<open>batchOffset\<close>. For the second frame (batch index 1) of a batch of two frames of
  32768 x 32768 pixels and three channels the frame is well-formed, has the blob's
  size, and the offset of the claim lies inside the blob; but
  1 * 32768 * 32768 * 3 = 3221225472 does not fit an \<open>int\<close>, \<open>batchOffset\<close> is
  negative, the subscript the code computes is not the offset of the claim, and the
  first store of the loops leaves the blob's memory.
\<close>

theorem matU8ToBlob_batchOffset_overflow:
  "wf_mat frame_large \<and> mat_depth frame_large = CV_8U \<and> mat_channels frame_large = 3 \<and>
   blob_dims blob_large ! 3 = of_nat (mat_cols frame_large) \<and>
   blob_dims blob_large ! 2 = of_nat (mat_rows frame_large) \<and>
   dest_offset 1 32768 32768 3 0 0 0 < length (blob_data blob_large) \<and>
   unat (blob_index (batchOffset 1 32768 32768 3) 32768 32768 0 0 0) \<noteq>
     dest_offset 1 32768 32768 3 0 0 0 \<and>
   matU8ToBlob resize_unavailable scale_u8 frame_large blob_large 1 1 = Inl OutOfBounds"
proof -
  have 1: "wf_mat frame_large \<and> mat_depth frame_large = CV_8U \<and> mat_channels frame_large = 3"
    by (simp add: wf_mat_def frame_large_def INT_MAX_def)
  have 2: "blob_dims blob_large ! 3 = of_nat (mat_cols frame_large) \<and>
           blob_dims blob_large ! 2 = of_nat (mat_rows frame_large)"
    by (simp add: blob_large_def frame_large_def)
  have 3: "dest_offset 1 32768 32768 3 0 0 0 < length (blob_data blob_large)"
    by (simp add: dest_offset_def blob_large_def)
  have 4: "unat (blob_index (batchOffset 1 32768 32768 3) 32768 32768 0 0 0) \<noteq>
           dest_offset 1 32768 32768 3 0 0 0"
    by (simp add: blob_index_large dest_offset_def)
  have d: "blob_dims blob_large = [2, 3, 32768, 32768]"
    by (simp add: blob_large_def)
  have r: "resized_image resize_unavailable frame_large 32768 32768 = Inr frame_large"
    by (rule resized_image_same) (simp_all add: frame_large_def)
  have 5: "matU8ToBlob resize_unavailable scale_u8 frame_large blob_large 1 1 =
           Inl OutOfBounds"
    by (simp add: matU8ToBlob_unfold [OF d] r load_pixels_large)
  from 1 2 3 4 5 show ?thesis by blast
qed

section \<open>When the frame is resized\<close>

text \<open>
  Claim C4. Let the blob have the dimensions N, C, H, W. The conversion calls the
  resampling routine if and only if the frame's width or height differs from W or H:
  with a routine that always throws, the conversion ends with that exception exactly
  when the sizes differ. When the sizes are equal, the image the loops read is the frame
  itself, and the result does not depend on the resampling routine. When they differ,
  the routine is called with W and H; its exception ends the conversion, and
  its result, of the requested size, is loaded as if it were the frame.
\<close>

theorem matU8ToBlob_resize_iff:
  assumes "blob_dims blob = [N, C, H, W]"
  shows "(matU8ToBlob resize_unavailable mul img blob s b = Inl ResizeFailed \<longleftrightarrow>
            W \<noteq> of_nat (mat_cols img) \<or> H \<noteq> of_nat (mat_rows img)) \<and>
         (W = of_nat (mat_cols img) \<and> H = of_nat (mat_rows img) \<longrightarrow>
            resized_image resize img W H = Inr img \<and>
            matU8ToBlob resize mul img blob s b =
              matU8ToBlob resize_unavailable mul img blob s b) \<and>
         (W \<noteq> of_nat (mat_cols img) \<or> H \<noteq> of_nat (mat_rows img) \<longrightarrow>
            resized_image resize img W H = resize img W H \<and>
            (\<forall>e. resize img W H = Inl e \<longrightarrow>
                 matU8ToBlob resize mul img blob s b = Inl e) \<and>
            (\<forall>m. resize img W H = Inr m \<and>
                 W = of_nat (mat_cols m) \<and> H = of_nat (mat_rows m) \<longrightarrow>
                 matU8ToBlob resize mul img blob s b =
                   matU8ToBlob resize_unavailable mul m blob s b))"
proof -
  have called: "matU8ToBlob resize_unavailable mul img blob s b = Inl ResizeFailed"
    if "W \<noteq> of_nat (mat_cols img) \<or> H \<noteq> of_nat (mat_rows img)"
    by (simp add: matU8ToBlob_other_size [OF assms that] resize_unavailable_def)
  have not_called: "matU8ToBlob resize_unavailable mul img blob s b \<noteq> Inl ResizeFailed"
    if same: "W = of_nat (mat_cols img)" "H = of_nat (mat_rows img)"
  proof
    assume "matU8ToBlob resize_unavailable mul img blob s b = Inl ResizeFailed"
    then have "load_pixels mul img s (batchOffset b W H C) W H C (blob_data blob) =
               Inl ResizeFailed"
      unfolding matU8ToBlob_same_size [OF assms same] by (auto split: sum.splits)
    from load_pixels_fault [OF this] show False by simp
  qed
  have same_case: "resized_image resize img W H = Inr img \<and>
        matU8ToBlob resize mul img blob s b = matU8ToBlob resize_unavailable mul img blob s b"
    if same: "W = of_nat (mat_cols img)" "H = of_nat (mat_rows img)"
    by (simp add: matU8ToBlob_same_size [OF assms same] resized_image_same [OF same])
  have other_case:
    "resized_image resize img W H = resize img W H \<and>
     (\<forall>e. resize img W H = Inl e \<longrightarrow>
          matU8ToBlob resize mul img blob s b = Inl e) \<and>
     (\<forall>m. resize img W H = Inr m \<and>
          W = of_nat (mat_cols m) \<and> H = of_nat (mat_rows m) \<longrightarrow>
          matU8ToBlob resize mul img blob s b = matU8ToBlob resize_unavailable mul m blob s b)"
    if other: "W \<noteq> of_nat (mat_cols img) \<or> H \<noteq> of_nat (mat_rows img)"
  proof (intro conjI allI impI)
    show "resized_image resize img W H = resize img W H"
      using other by (simp add: resized_image_def)
  next
    fix e assume "resize img W H = Inl e"
    then show "matU8ToBlob resize mul img blob s b = Inl e"
      by (simp add: matU8ToBlob_other_size [OF assms other])
  next
    fix m
    assume m: "resize img W H = Inr m \<and>
               W = of_nat (mat_cols m) \<and> H = of_nat (mat_rows m)"
    then have r: "resize img W H = Inr m"
      and fit: "W = of_nat (mat_cols m)" "H = of_nat (mat_rows m)"
      by blast+
    have "matU8ToBlob resize mul img blob s b =
        (case load_pixels mul m s (batchOffset b W H C) W H C (blob_data blob) of
           Inl e \<Rightarrow> Inl e
         | Inr buf \<Rightarrow> Inr (blob\<lparr>blob_data := buf\<rparr>))"
      unfolding matU8ToBlob_other_size [OF assms other] r by simp
    also have "\<dots> = matU8ToBlob resize_unavailable mul m blob s b"
      by (rule matU8ToBlob_same_size [OF assms fit, symmetric])
    finally show "matU8ToBlob resize mul img blob s b =
               matU8ToBlob resize_unavailable mul m blob s b" .
  qed
  show ?thesis
    using called not_called same_case other_case by blast
qed

text \<open>
  The theorem at the test image, whose size is the blob's, and at a uniform frame of
  4 x 4 pixels of the value 100, which is resized to 2 x 2 and gives 100 everywhere.
\<close>

theorem matU8ToBlob_resize_iff_witness:
  "matU8ToBlob resize_unavailable scale_u8 frame_2x2 blob_2x2 1 0 \<noteq> Inl ResizeFailed \<and>
   resized_image (resize_uniform 100) frame_2x2 2 2 = Inr frame_2x2 \<and>
   matU8ToBlob (resize_uniform 100) scale_u8 frame_2x2 blob_2x2 1 0 =
     Inr \<lparr>blob_dims = [1, 1, 2, 2], blob_data = [10, 20, 30, 40]\<rparr> \<and>
   matU8ToBlob resize_unavailable scale_u8 frame_uniform_4x4 blob_2x2 1 0 =
     Inl ResizeFailed \<and>
   matU8ToBlob (resize_uniform 100) scale_u8 frame_uniform_4x4 blob_2x2 1 0 =
     Inr \<lparr>blob_dims = [1, 1, 2, 2], blob_data = [100, 100, 100, 100]\<rparr>"
proof -
  have dims: "blob_dims blob_2x2 = [1, 1, 2, 2]"
    by (simp add: blob_2x2_def)
  have same: "(2::size_t) = of_nat (mat_cols frame_2x2) \<and> (2::size_t) = of_nat (mat_rows frame_2x2)"
    by (simp add: frame_2x2_def)
  have other: "(2::size_t) \<noteq> of_nat (mat_cols frame_uniform_4x4) \<or>
               (2::size_t) \<noteq> of_nat (mat_rows frame_uniform_4x4)"
    by (simp add: frame_uniform_4x4_def)
  have fits: "(2::size_t) = of_nat (mat_cols frame_uniform_2x2) \<and>
              (2::size_t) = of_nat (mat_rows frame_uniform_2x2)"
    by (simp add: frame_uniform_2x2_def)
  note a = matU8ToBlob_resize_iff [OF dims, of scale_u8 frame_2x2 1 0 "resize_uniform 100"]
  note b = matU8ToBlob_resize_iff [OF dims, of scale_u8 frame_uniform_4x4 1 0
      "resize_uniform 100"]
  from a same have 1:
    "matU8ToBlob resize_unavailable scale_u8 frame_2x2 blob_2x2 1 0 \<noteq> Inl ResizeFailed"
    by blast
  from a same have 2: "resized_image (resize_uniform 100) frame_2x2 2 2 = Inr frame_2x2"
    by blast
  from a same have "matU8ToBlob (resize_uniform 100) scale_u8 frame_2x2 blob_2x2 1 0 =
      matU8ToBlob resize_unavailable scale_u8 frame_2x2 blob_2x2 1 0"
    by blast
  then have 3: "matU8ToBlob (resize_uniform 100) scale_u8 frame_2x2 blob_2x2 1 0 =
      Inr \<lparr>blob_dims = [1, 1, 2, 2], blob_data = [10, 20, 30, 40]\<rparr>"
    by (simp only: load_2x2)
  from b other have 4:
    "matU8ToBlob resize_unavailable scale_u8 frame_uniform_4x4 blob_2x2 1 0 =
     Inl ResizeFailed"
    by blast
  from b other resize_uniform_4x4 fits
  have "matU8ToBlob (resize_uniform 100) scale_u8 frame_uniform_4x4 blob_2x2 1 0 =
      matU8ToBlob resize_unavailable scale_u8 frame_uniform_2x2 blob_2x2 1 0"
    by blast
  then have 5: "matU8ToBlob (resize_uniform 100) scale_u8 frame_uniform_4x4 blob_2x2 1 0 =
      Inr \<lparr>blob_dims = [1, 1, 2, 2], blob_data = [100, 100, 100, 100]\<rparr>"
    by (simp only: load_uniform_2x2)
  show ?thesis
    using 1 2 3 4 5 by blast
qed

section \<open>Pixels are read as three 8-bit channels\<close>

text \<open>
  Claim C10. Let the blob have the dimensions N, C, H, W, none of C, H, W being zero,
  and let the conversion return. Then for every channel index c < C, row h < H and
  column w < W the image the loops read was accessed as a matrix of \<open>Vec3b\<close> at
  (h, w) and component c of that pixel was taken, whatever C is; so that image has
  three 8-bit channels and C is at most 3. When the frame's size is the blob's, that
  image is the frame.
\<close>

theorem matU8ToBlob_reads_Vec3b:
  assumes run: "matU8ToBlob resize mul img blob s b = Inr blob'"
    and dims: "blob_dims blob = [N, C, H, W]"
    and nonempty: "0 < unat C" "0 < unat H" "0 < unat W"
  shows "\<exists>m. resized_image resize img W H = Inr m \<and>
           (\<forall>c<unat C. \<forall>h<unat H. \<forall>w<unat W.
              \<exists>px v. at_Vec3b m (to_int (of_nat h)) (to_int (of_nat w)) = Inr px \<and>
                     vec3b_at px (of_nat c) = Inr v) \<and>
           mat_depth m = CV_8U \<and> mat_channels m = 3 \<and> unat C \<le> 3 \<and>
           (W = of_nat (mat_cols img) \<and> H = of_nat (mat_rows img) \<longrightarrow> m = img)"
proof -
  from run obtain m buf where
    m: "resized_image resize img W H = Inr m"
    and buf: "load_pixels mul m s (batchOffset b W H C) W H C (blob_data blob) = Inr buf"
    unfolding matU8ToBlob_unfold [OF dims] by (auto split: sum.splits)
  have reads: "\<exists>px v. at_Vec3b m (to_int (of_nat h)) (to_int (of_nat w)) = Inr px \<and>
                      vec3b_at px (of_nat c) = Inr v"
    if "c < unat C" "h < unat H" "w < unat W" for c h w
    using buf that by (rule load_pixels_success)
  from reads [of 0 0 0] nonempty obtain px0 where
    "at_Vec3b m (to_int (of_nat 0)) (to_int (of_nat 0)) = Inr px0"
    by blast
  then have type: "mat_depth m = CV_8U \<and> mat_channels m = 3"
    by (rule at_Vec3b_type)
  from reads [of "unat C - 1" 0 0] nonempty obtain px v where
    "vec3b_at px (of_nat (unat C - 1)) = Inr v"
    by auto
  moreover have "unat C - 1 < 2 ^ 64"
  proof -
    have "unat C < 2 ^ LENGTH(64)" by (rule unsigned_less)
    then show ?thesis by simp
  qed
  ultimately have "unat C - 1 < 3"
    by (rule vec3b_at_range)
  then have ch: "unat C \<le> 3" by simp
  have same: "m = img" if "W = of_nat (mat_cols img) \<and> H = of_nat (mat_rows img)"
    using m that by (simp add: resized_image_def)
  show ?thesis
    using m reads type ch same by blast
qed

text \<open>The theorem at the test image and a blob of one channel.\<close>

theorem matU8ToBlob_reads_Vec3b_witness:
  "matU8ToBlob resize_unavailable scale_u8 frame_2x2 blob_2x2 1 0 =
     Inr \<lparr>blob_dims = [1, 1, 2, 2], blob_data = [10, 20, 30, 40]\<rparr> \<and>
   0 < unat (1::size_t) \<and> 0 < unat (2::size_t) \<and>
   resized_image resize_unavailable frame_2x2 2 2 = Inr frame_2x2 \<and>
   mat_depth frame_2x2 = CV_8U \<and> mat_channels frame_2x2 = 3 \<and> unat (1::size_t) \<le> 3 \<and>
   vec3b_at (10, 11, 12) (of_nat 0) = Inr 10"
proof -
  have dims: "blob_dims blob_2x2 = [1, 1, 2, 2]"
    by (simp add: blob_2x2_def)
  have ne: "0 < unat (1::size_t)" "0 < unat (2::size_t)"
    by simp_all
  have same: "(2::size_t) = of_nat (mat_cols frame_2x2) \<and> (2::size_t) = of_nat (mat_rows frame_2x2)"
    by (simp add: frame_2x2_def)
  from matU8ToBlob_reads_Vec3b [OF load_2x2 dims ne(1) ne(2) ne(2)] same
  have r: "resized_image resize_unavailable frame_2x2 2 2 = Inr frame_2x2"
    and t: "mat_depth frame_2x2 = CV_8U" "mat_channels frame_2x2 = 3" "unat (1::size_t) \<le> 3"
    by auto
  have "vec3b_at (10, 11, 12) (of_nat 0) = Inr 10"
    by (simp add: vec3b_at_def)
  then show ?thesis
    using load_2x2 ne r t by simp
qed

text \<open>
  A blob that declares four channels and a frame stored with one channel have no
  defined conversion.
\<close>

lemma load_four_channels:
  "matU8ToBlob resize_unavailable scale_u8 frame_2x2 blob_4ch 1 0 = Inl BadMatAccess"
  by code_simp

lemma load_gray_frame:
  "matU8ToBlob resize_unavailable scale_u8 frame_gray_2x2 blob_2x2 1 0 = Inl BadMatAccess"
  by code_simp

section \<open>Enqueueing a frame\<close>

lemma enqueue_cases:
  assumes "enqueue resize mul frame loc s b name st = Inr (ok, st')"
  shows "(\<not> ok \<and> st' = st \<and> enqueued_frames st = max_batch_size st) \<or>
         (ok \<and> enqueued_frames st \<noteq> max_batch_size st \<and> enqueued_frames st \<noteq> INT_MAX \<and>
          (\<exists>e input_blob loaded.
             engine st = Some e \<and> request e name = Some input_blob \<and>
             matU8ToBlob resize mul frame input_blob s b = Inr loaded \<and>
             st' = st\<lparr>engine := Some (e\<lparr>request := (request e)(name \<mapsto> loaded)\<rparr>),
                      enqueued_frames := enqueued_frames st + 1\<rparr>))"
  using assms
  by (auto simp: enqueue_def GetBlob_def split: if_splits option.splits sum.splits)

lemma enqueue_preserves:
  assumes "enqueue resize mul frame loc s b name st = Inr (ok, st')"
  shows "max_batch_size st' = max_batch_size st" "results st' = results st"
    "results_fetched st' = results_fetched st"
  using enqueue_cases [OF assms] by auto

lemma enqueue_loc_irrelevant:
  "enqueue resize mul frame loc s b name st = enqueue resize mul frame loc' s b name st"
  by (simp add: enqueue_def)

lemma inference_batch2_eq:
  "inference_batch2 =
     \<lparr>results = [], engine = Some \<lparr>request = [''data'' \<mapsto> blob_batch2]\<rparr>,
      max_batch_size = 2, enqueued_frames = 0, results_fetched = False\<rparr>"
  by (simp add: inference_batch2_def setMaxBatchSize_def loadEngine_def BaseInference_def
      engine_batch2_def)

lemma enqueue_first:
  "enqueue resize_unavailable scale_u8 frame_2x2 loc 1 0 ''data'' inference_batch2 =
   Inr (True, inference_loaded1)"
  by (simp add: enqueue_def inference_batch2_eq GetBlob_def load_slot0 INT_MAX_def
      inference_loaded1_def)

lemma enqueue_second:
  "enqueue resize_unavailable scale_u8 frame_2x2 loc 2 1 ''data'' inference_loaded1 =
   Inr (True, inference_loaded2)"
  by (simp add: enqueue_def inference_loaded1_def GetBlob_def load_slot1 INT_MAX_def
      inference_loaded2_def)

text \<open>
  Claim C1. In every state of the object in which the number of enqueued frames equals
  \<open>max_batch_size\<close>, a call of \<open>enqueue\<close> returns \<open>false\<close> and leaves the object as
  it was: the count, the engine's blobs and everything else.
\<close>

theorem enqueue_full:
  assumes "getEnqueuedNum st = max_batch_size st"
  shows "enqueue resize mul frame input_frame_loc scale_factor batch_index input_name st =
         Inr (False, st)"
  using assms by (simp add: enqueue_def getEnqueuedNum_def)

text \<open>The theorem at an object that holds two frames and has the batch size 2.\<close>

theorem enqueue_full_witness:
  "getEnqueuedNum inference_loaded2 = max_batch_size inference_loaded2 \<and>
   enqueue resize_unavailable scale_u8 frame_2x2 (Rect 0 0 2 2) 1 0 ''data''
     inference_loaded2 = Inr (False, inference_loaded2)"
proof -
  have h: "getEnqueuedNum inference_loaded2 = max_batch_size inference_loaded2"
    by (simp add: getEnqueuedNum_def inference_loaded2_def)
  show ?thesis
    using h enqueue_full [OF h] by simp
qed

text \<open>
  Claim C3, as the code has it. When a call of \<open>enqueue\<close> returns \<open>true\<close>, the object
  has an engine whose request has a blob \<open>input_name\<close>; the frame was loaded into that
  blob by \<open>matU8ToBlob\<close> with the given scale factor and batch index, the request
  holds the loaded blob, and the count of enqueued frames has grown by exactly one.
  Nothing else has changed, the results in particular, and the placement rectangle is
  not recorded: the call leads to the same state with any other rectangle.
\<close>

theorem enqueue_success:
  assumes "enqueue resize mul frame input_frame_loc scale_factor batch_index input_name st =
           Inr (True, st')"
  shows "\<exists>e input_blob loaded.
           getEngine st = Some e \<and> GetBlob e input_name = Inr input_blob \<and>
           matU8ToBlob resize mul frame input_blob scale_factor batch_index = Inr loaded \<and>
           st' = st\<lparr>engine := Some (e\<lparr>request := (request e)(input_name \<mapsto> loaded)\<rparr>),
                    enqueued_frames := enqueued_frames st + 1\<rparr> \<and>
           getEnqueuedNum st' = getEnqueuedNum st + 1 \<and>
           results st' = results st \<and>
           (\<forall>loc. enqueue resize mul frame loc scale_factor batch_index input_name st =
                  Inr (True, st'))"
proof -
  from enqueue_cases [OF assms] obtain e input_blob loaded where
    e: "engine st = Some e" "request e input_name = Some input_blob"
      "matU8ToBlob resize mul frame input_blob scale_factor batch_index = Inr loaded"
      "st' = st\<lparr>engine := Some (e\<lparr>request := (request e)(input_name \<mapsto> loaded)\<rparr>),
               enqueued_frames := enqueued_frames st + 1\<rparr>"
    by auto
  have "\<forall>loc. enqueue resize mul frame loc scale_factor batch_index input_name st =
              Inr (True, st')"
    using assms enqueue_loc_irrelevant [of resize mul frame _ scale_factor batch_index input_name st input_frame_loc]
    by simp
  then show ?thesis
    using e by (simp add: getEngine_def GetBlob_def getEnqueuedNum_def)
qed

text \<open>The theorem at the first frame of a batch of two.\<close>

theorem enqueue_success_witness:
  "enqueue resize_unavailable scale_u8 frame_2x2 (Rect 0 0 2 2) 1 0 ''data''
     inference_batch2 = Inr (True, inference_loaded1) \<and>
   getEnqueuedNum inference_loaded1 = getEnqueuedNum inference_batch2 + 1 \<and>
   results inference_loaded1 = results inference_batch2 \<and>
   enqueue resize_unavailable scale_u8 frame_2x2 (Rect 5 7 2 2) 1 0 ''data''
     inference_batch2 = Inr (True, inference_loaded1)"
proof -
  have h: "enqueue resize_unavailable scale_u8 frame_2x2 (Rect 0 0 2 2) 1 0 ''data''
     inference_batch2 = Inr (True, inference_loaded1)"
    by (rule enqueue_first)
  from enqueue_success [OF h] show ?thesis
    using h by blast
qed

text \<open>
  Claim C3 says that a successful call records the placement rectangle. Two calls that
  differ in the rectangle only lead to one and the same state, which holds no result.
\<close>

theorem enqueue_rect_counterexample:
  "enqueue resize_unavailable scale_u8 frame_2x2 (Rect 0 0 2 2) 1 0 ''data''
     inference_batch2 = Inr (True, inference_loaded1) \<and>
   enqueue resize_unavailable scale_u8 frame_2x2 (Rect 5 7 2 2) 1 0 ''data''
     inference_batch2 = Inr (True, inference_loaded1) \<and>
   Rect 0 0 2 2 \<noteq> Rect 5 7 2 2 \<and>
   results inference_loaded1 = []"
  by (simp add: enqueue_first inference_loaded1_def)

text \<open>
  Claim C9. In every state in which the count of enqueued frames differs from
  \<open>max_batch_size\<close> (below capacity in particular), \<open>enqueue\<close> dereferences the
  engine pointer: when the pointer is null the call has no defined result, not the
  result \<open>false\<close>, and a call that returns has found an engine, which only
  \<open>loadEngine\<close> sets.
\<close>

theorem enqueue_needs_engine:
  assumes "getEnqueuedNum st \<noteq> max_batch_size st"
  shows "(getEngine st = None \<longrightarrow>
            enqueue resize mul frame input_frame_loc scale_factor batch_index input_name st =
            Inl NullPointer) \<and>
         (\<forall>ok st'.
            enqueue resize mul frame input_frame_loc scale_factor batch_index input_name st =
            Inr (ok, st') \<longrightarrow> getEngine st \<noteq> None)"
  using assms
  by (auto simp: enqueue_def getEngine_def getEnqueuedNum_def split: option.splits)

text \<open>The theorem at a freshly constructed object, which has no engine.\<close>

theorem enqueue_needs_engine_witness:
  "getEnqueuedNum (BaseInference :: uchar base_inference) \<noteq> max_batch_size (BaseInference :: uchar base_inference) \<and>
   getEngine (BaseInference :: uchar base_inference) = None \<and>
   enqueue resize_unavailable scale_u8 frame_2x2 (Rect 0 0 2 2) 1 0 ''data''
     (BaseInference :: uchar base_inference) = Inl NullPointer"
proof -
  have h: "getEnqueuedNum (BaseInference :: uchar base_inference) \<noteq>
           max_batch_size (BaseInference :: uchar base_inference)"
    by (simp add: getEnqueuedNum_def BaseInference_def)
  have n: "getEngine (BaseInference :: uchar base_inference) = None"
    by (simp add: getEngine_def BaseInference_def)
  from enqueue_needs_engine [OF h, of resize_unavailable scale_u8 frame_2x2
      "Rect 0 0 2 2" 1 0 "''data''"] n h
  show ?thesis
    by simp
qed

section \<open>The lifecycle of a request\<close>

lemma core_enqueue_cases:
  assumes "core_enqueue resize mul frame loc s b name k = Inr (ok, k')"
  shows "phase k \<noteq> Submitted \<and>
         (\<exists>st. enqueue resize mul frame loc s b name (inference k) = Inr (ok, st) \<and>
               k' = \<lparr>inference = st, phase = (if ok then Enqueuing else phase k)\<rparr>)"
  using assms
  by (auto simp: core_enqueue_def split: if_splits sum.splits prod.splits)

lemma core_enqueue_accept:
  assumes "core_enqueue resize mul frame loc s b name k = Inr (True, k')"
  shows "enqueued_frames (inference k) \<noteq> max_batch_size (inference k)"
    "enqueued_frames (inference k') = enqueued_frames (inference k) + 1"
    "max_batch_size (inference k') = max_batch_size (inference k)"
    "phase k' = Enqueuing"
proof -
  from core_enqueue_cases [OF assms] obtain st where
    st: "enqueue resize mul frame loc s b name (inference k) = Inr (True, st)"
    and k': "k' = \<lparr>inference = st, phase = Enqueuing\<rparr>"
    by auto
  from enqueue_cases [OF st]
  show "enqueued_frames (inference k) \<noteq> max_batch_size (inference k)"
    "enqueued_frames (inference k') = enqueued_frames (inference k) + 1"
    "max_batch_size (inference k') = max_batch_size (inference k)"
    using k' by auto
  show "phase k' = Enqueuing" using k' by simp
qed

lemma core_enqueue_reject_iff:
  assumes "phase k \<noteq> Submitted"
  shows "core_enqueue resize mul frame loc s b name k = Inr (False, k) \<longleftrightarrow>
         enqueued_frames (inference k) = max_batch_size (inference k)"
proof
  assume "core_enqueue resize mul frame loc s b name k = Inr (False, k)"
  from core_enqueue_cases [OF this] obtain st where
    "enqueue resize mul frame loc s b name (inference k) = Inr (False, st)"
    by auto
  from enqueue_cases [OF this]
  show "enqueued_frames (inference k) = max_batch_size (inference k)"
    by auto
next
  assume "enqueued_frames (inference k) = max_batch_size (inference k)"
  then have "enqueue resize mul frame loc s b name (inference k) = Inr (False, inference k)"
    by (simp add: enqueue_def)
  then show "core_enqueue resize mul frame loc s b name k = Inr (False, k)"
    using assms by (simp add: core_enqueue_def)
qed

lemma enqueue_all_count:
  assumes "enqueue_all resize mul calls k = Some k'"
    and "phase k \<noteq> Submitted"
    and "enqueued_frames (inference k) \<le> max_batch_size (inference k)"
  shows "enqueued_frames (inference k') = enqueued_frames (inference k) + int (length calls) \<and>
         max_batch_size (inference k') = max_batch_size (inference k) \<and>
         enqueued_frames (inference k') \<le> max_batch_size (inference k') \<and>
         phase k' \<noteq> Submitted"
  using assms
proof (induction calls arbitrary: k)
  case Nil
  then show ?case by simp
next
  case (Cons call calls)
  obtain frame loc s b name where call: "call = (frame, loc, s, b, name)"
    by (cases call) auto
  from Cons.prems(1) obtain k1 where
    step: "core_enqueue resize mul frame loc s b name k = Inr (True, k1)"
    and rest: "enqueue_all resize mul calls k1 = Some k'"
    unfolding call
    by (auto split: sum.splits prod.splits bool.splits)
  note a = core_enqueue_accept [OF step]
  have "enqueued_frames (inference k1) \<le> max_batch_size (inference k1)"
    using a(1-3) Cons.prems(3) by simp
  moreover have "phase k1 \<noteq> Submitted" using a(4) by simp
  ultimately have
    "enqueued_frames (inference k') = enqueued_frames (inference k1) + int (length calls) \<and>
     max_batch_size (inference k') = max_batch_size (inference k1) \<and>
     enqueued_frames (inference k') \<le> max_batch_size (inference k') \<and>
     phase k' \<noteq> Submitted"
    using Cons.IH [OF rest] by simp
  then show ?case using a(2,3) by simp
qed

lemma enqueue_all_max:
  assumes "enqueue_all resize mul calls k = Some k'"
  shows "max_batch_size (inference k') = max_batch_size (inference k)"
  using assms
proof (induction calls arbitrary: k)
  case Nil
  then show ?case by simp
next
  case (Cons call calls)
  obtain frame loc s b name where call: "call = (frame, loc, s, b, name)"
    by (cases call) auto
  from Cons.prems(1) obtain k1 where
    step: "core_enqueue resize mul frame loc s b name k = Inr (True, k1)"
    and rest: "enqueue_all resize mul calls k1 = Some k'"
    unfolding call
    by (auto split: sum.splits prod.splits bool.splits)
  show ?case
    using Cons.IH [OF rest] core_enqueue_accept(3) [OF step] by simp
qed

lemma submitRequest_cases:
  assumes "submitRequest execute k = Inr (True, k')"
  shows "phase k = Enqueuing \<and> phase k' = Submitted \<and>
         (\<exists>e e'. engine (inference k) = Some e \<and> execute e = Some e' \<and>
                  inference k' = (inference k)\<lparr>engine := Some e'\<rparr>)"
  using assms
  by (auto simp: submitRequest_def split: if_splits option.splits)

lemma fetchResults_cases:
  assumes "fetchResults parse k = Inr (ok, k')"
  shows "phase k = Submitted \<and> ok \<and> phase k' = Idle \<and>
         (\<exists>e. engine (inference k) = Some e \<and>
              inference k' = (inference k)\<lparr>results := parse e, enqueued_frames := 0,
                                          results_fetched := True\<rparr>)"
  using assms
  by (auto simp: fetchResults_def split: if_splits option.splits)

lemma enqueue_all_first_cycle:
  "enqueue_all resize_unavailable scale_u8 [call_first, call_second] core_batch2 =
   Some core_loaded2"
  by (simp add: call_first_def call_second_def core_enqueue_def core_batch2_def enqueue_first
      enqueue_second core_loaded2_def)

lemma submit_first_cycle: "submitRequest execute_ok core_loaded2 = Inr (True, core_submitted)"
  by (simp add: submitRequest_def core_loaded2_def inference_loaded2_def execute_ok_def
      core_submitted_def)

lemma fetch_first_cycle: "fetchResults parse_one core_submitted = Inr (True, core_fetched)"
  by (simp add: fetchResults_def core_submitted_def inference_loaded2_def parse_one_def
      core_fetched_def inference_fetched_def)

lemma enqueue_all_second_cycle:
  "enqueue_all resize_unavailable scale_u8 [call_first, call_second] core_fetched =
   Some core_reloaded2"
  by (simp add: call_first_def call_second_def core_enqueue_def core_fetched_def enqueue_def
      inference_fetched_def GetBlob_def reload_slot0 reload_slot1 INT_MAX_def core_reloaded2_def)

text \<open>
  Claim C5. Let N enqueue calls succeed, with 1 \<le> N \<le> \<open>max_batch_size\<close>, and let
  a submit and a fetch succeed after them. Then the count of enqueued frames is 0 and
  \<open>max_batch_size\<close> is what it was; and in every run of successful enqueue calls that
  follows, at most \<open>max_batch_size\<close> calls succeed, the count is the number of these
  calls, and the next call is rejected exactly when \<open>max_batch_size\<close> calls have
  succeeded.
\<close>

theorem round_trip_count:
  assumes run: "enqueue_all resize mul calls k = Some k1"
    and N: "1 \<le> length calls" "int (length calls) \<le> max_batch_size (inference k)"
    and sub: "submitRequest execute k1 = Inr (True, k2)"
    and fet: "fetchResults parse k2 = Inr (True, k3)"
  shows "getEnqueuedNum (inference k3) = 0 \<and>
         max_batch_size (inference k3) = max_batch_size (inference k) \<and>
         (\<forall>calls' k4.
            enqueue_all resize' mul' calls' k3 = Some k4 \<longrightarrow>
              int (length calls') \<le> max_batch_size (inference k) \<and>
              getEnqueuedNum (inference k4) = int (length calls') \<and>
              (\<forall>frame loc s b name.
                 core_enqueue resize' mul' frame loc s b name k4 = Inr (False, k4) \<longleftrightarrow>
                 int (length calls') = max_batch_size (inference k)))"
proof -
  have m1: "max_batch_size (inference k1) = max_batch_size (inference k)"
    using run by (rule enqueue_all_max)
  have m2: "max_batch_size (inference k2) = max_batch_size (inference k1)"
    using submitRequest_cases [OF sub] by auto
  from fetchResults_cases [OF fet]
  have idle: "phase k3 = Idle" and zero: "enqueued_frames (inference k3) = 0"
    and m3: "max_batch_size (inference k3) = max_batch_size (inference k2)"
    by auto
  have m: "max_batch_size (inference k3) = max_batch_size (inference k)"
    using m1 m2 m3 by simp
  have cap: "enqueued_frames (inference k3) \<le> max_batch_size (inference k3)"
    using zero m N by simp
  have again: "int (length calls') \<le> max_batch_size (inference k) \<and>
         getEnqueuedNum (inference k4) = int (length calls') \<and>
         (\<forall>frame loc s b name.
            core_enqueue resize' mul' frame loc s b name k4 = Inr (False, k4) \<longleftrightarrow>
            int (length calls') = max_batch_size (inference k))"
    if r: "enqueue_all resize' mul' calls' k3 = Some k4" for calls' k4
  proof -
    have ph: "phase k3 \<noteq> Submitted" using idle by simp
    from enqueue_all_count [OF r ph cap]
    have c: "enqueued_frames (inference k4) = int (length calls')"
      and mm: "max_batch_size (inference k4) = max_batch_size (inference k)"
      and le: "enqueued_frames (inference k4) \<le> max_batch_size (inference k4)"
      and p4: "phase k4 \<noteq> Submitted"
      using zero m by simp_all
    show ?thesis
      using c mm le core_enqueue_reject_iff [OF p4, of resize' mul']
      by (simp add: getEnqueuedNum_def)
  qed
  show ?thesis
    using zero m again by (simp add: getEnqueuedNum_def)
qed

text \<open>
  The theorem at a batch of two: two frames are enqueued, submitted and fetched, two
  frames are enqueued again, and the third call is rejected.
\<close>

theorem round_trip_count_witness:
  "enqueue_all resize_unavailable scale_u8 [call_first, call_second] core_batch2 =
     Some core_loaded2 \<and>
   submitRequest execute_ok core_loaded2 = Inr (True, core_submitted) \<and>
   fetchResults parse_one core_submitted = Inr (True, core_fetched) \<and>
   getEnqueuedNum (inference core_fetched) = 0 \<and>
   enqueue_all resize_unavailable scale_u8 [call_first, call_second] core_fetched =
     Some core_reloaded2 \<and>
   getEnqueuedNum (inference core_reloaded2) = 2 \<and>
   core_enqueue resize_unavailable scale_u8 frame_2x2 (Rect 0 0 2 2) 1 0 ''data''
     core_reloaded2 = Inr (False, core_reloaded2)"
proof -
  have N: "1 \<le> length [call_first, call_second]"
    "int (length [call_first, call_second]) \<le> max_batch_size (inference core_batch2)"
    by (simp_all add: core_batch2_def inference_batch2_eq)
  have m: "max_batch_size (inference core_batch2) = 2"
    by (simp add: core_batch2_def inference_batch2_eq)
  note t = round_trip_count [OF enqueue_all_first_cycle N submit_first_cycle fetch_first_cycle,
      of resize_unavailable scale_u8]
  from t have z: "getEnqueuedNum (inference core_fetched) = 0"
    by blast
  from t enqueue_all_second_cycle
  have "getEnqueuedNum (inference core_reloaded2) = int (length [call_first, call_second]) \<and>
        (\<forall>frame loc s b name.
            core_enqueue resize_unavailable scale_u8 frame loc s b name core_reloaded2 =
              Inr (False, core_reloaded2) \<longleftrightarrow>
            int (length [call_first, call_second]) = max_batch_size (inference core_batch2))"
    by blast
  then have "getEnqueuedNum (inference core_reloaded2) = 2"
    and "core_enqueue resize_unavailable scale_u8 frame_2x2 (Rect 0 0 2 2) 1 0 ''data''
           core_reloaded2 = Inr (False, core_reloaded2)"
    using m by simp_all
  then show ?thesis
    using enqueue_all_first_cycle submit_first_cycle fetch_first_cycle enqueue_all_second_cycle z
    by simp
qed

text \<open>
  Claim C7. A result created from a rectangle R gives R as its location. No operation
  changes the results of the object, except \<open>fetchResults\<close>, which replaces them
  as a whole by what it parses from the engine's output.
\<close>

theorem result_location_fixed:
  "getLocation (Result R) = R \<and>
   (\<forall>ok st'. enqueue resize mul frame loc s b name st = Inr (ok, st') \<longrightarrow>
              results st' = results st) \<and>
   results (setMaxBatchSize n st) = results st \<and>
   results (loadEngine e st) = results st \<and>
   (\<forall>ok k'. core_enqueue resize mul frame loc s b name k = Inr (ok, k') \<longrightarrow>
             results (inference k') = results (inference k)) \<and>
   (\<forall>ok k'. submitRequest execute k = Inr (ok, k') \<longrightarrow>
             results (inference k') = results (inference k)) \<and>
   (\<forall>ok k'. fetchResults parse k = Inr (ok, k') \<longrightarrow>
             (\<exists>e'. engine (inference k) = Some e' \<and> results (inference k') = parse e'))"
proof -
  have 1: "getLocation (Result R) = R"
    by (simp add: getLocation_def Result_def)
  have 2: "results st' = results st"
    if "enqueue resize mul frame loc s b name st = Inr (ok, st')" for ok st'
    using that by (rule enqueue_preserves)
  have 3: "results (setMaxBatchSize n st) = results st"
    by (simp add: setMaxBatchSize_def)
  have 4: "results (loadEngine e st) = results st"
    by (simp add: loadEngine_def)
  have 5: "results (inference k') = results (inference k)"
    if "core_enqueue resize mul frame loc s b name k = Inr (ok, k')" for ok k'
  proof -
    from core_enqueue_cases [OF that] obtain st where
      st: "enqueue resize mul frame loc s b name (inference k) = Inr (ok, st)"
      and k': "inference k' = st"
      by auto
    show ?thesis
      unfolding k' using st by (rule enqueue_preserves(2))
  qed
  have 6: "results (inference k') = results (inference k)"
    if "submitRequest execute k = Inr (ok, k')" for ok k'
    using that by (auto simp: submitRequest_def split: if_splits option.splits)
  have 7: "\<exists>e'. engine (inference k) = Some e' \<and> results (inference k') = parse e'"
    if "fetchResults parse k = Inr (ok, k')" for ok k'
    using fetchResults_cases [OF that] by auto
  show ?thesis
    using 1 2 3 4 5 6 7 by blast
qed

text \<open>The theorem at an enqueue call and at the fetch of the first batch.\<close>

theorem result_location_fixed_witness:
  "getLocation (Result (Rect 1 2 3 4)) = Rect 1 2 3 4 \<and>
   enqueue resize_unavailable scale_u8 frame_2x2 (Rect 0 0 2 2) 1 0 ''data''
     inference_batch2 = Inr (True, inference_loaded1) \<and>
   results inference_loaded1 = results inference_batch2 \<and>
   fetchResults parse_one core_submitted = Inr (True, core_fetched) \<and>
   results (inference core_fetched) = [Result (Rect 0 0 2 2)]"
proof -
  note t = result_location_fixed [where R = "Rect 1 2 3 4" and resize = resize_unavailable
      and mul = scale_u8 and frame = frame_2x2 and loc = "Rect 0 0 2 2" and s = 1
      and b = 0 and name = "''data''" and st = inference_batch2 and k = core_submitted
      and parse = parse_one]
  from t have 1: "getLocation (Result (Rect 1 2 3 4)) = Rect 1 2 3 4"
    by blast
  from t enqueue_first [of "Rect 0 0 2 2"]
  have 2: "results inference_loaded1 = results inference_batch2"
    by blast
  from t fetch_first_cycle
  obtain e' where "engine (inference core_submitted) = Some e'"
    and "results (inference core_fetched) = parse_one e'"
    by blast
  then have 3: "results (inference core_fetched) = [Result (Rect 0 0 2 2)]"
    by (simp add: parse_one_def)
  show ?thesis
    using 1 2 3 enqueue_first [of "Rect 0 0 2 2"] fetch_first_cycle by simp
qed

text \<open>
  Claim C8. \<open>fetchResults\<close> called in the state \<open>Idle\<close> is a precondition violation,
  and so is \<open>submitRequest\<close> called again after a successful \<open>submitRequest\<close> with no
  fetch in between: neither call returns a value.
\<close>

theorem wrong_state_calls_fail:
  "(phase k = Idle \<longrightarrow> fetchResults parse k = Inl PreconditionViolation) \<and>
   (\<forall>k'. submitRequest execute k = Inr (True, k') \<longrightarrow>
         submitRequest execute' k' = Inl PreconditionViolation)"
proof -
  have 1: "fetchResults parse k = Inl PreconditionViolation" if "phase k = Idle"
    using that by (simp add: fetchResults_def)
  have 2: "submitRequest execute' k' = Inl PreconditionViolation"
    if "submitRequest execute k = Inr (True, k')" for k'
  proof -
    have "phase k' = Submitted"
      using submitRequest_cases [OF that] by simp
    then show ?thesis by (simp add: submitRequest_def)
  qed
  show ?thesis using 1 2 by blast
qed

text \<open>The theorem at an idle engine and at an engine with a submitted batch.\<close>

theorem wrong_state_calls_fail_witness:
  "phase core_batch2 = Idle \<and>
   fetchResults parse_one core_batch2 = Inl PreconditionViolation \<and>
   submitRequest execute_ok core_loaded2 = Inr (True, core_submitted) \<and>
   submitRequest execute_ok core_submitted = Inl PreconditionViolation"
proof -
  have i: "phase core_batch2 = Idle"
    by (simp add: core_batch2_def)
  note t1 = wrong_state_calls_fail [of core_batch2 parse_one execute_ok execute_ok]
  note t2 = wrong_state_calls_fail [of core_loaded2 parse_one execute_ok execute_ok]
  from t1 i have 1: "fetchResults parse_one core_batch2 = Inl PreconditionViolation"
    by blast
  from t2 submit_first_cycle
  have 2: "submitRequest execute_ok core_submitted = Inl PreconditionViolation"
    by blast
  show ?thesis using i 1 2 submit_first_cycle by simp
qed

section \<open>Decoding a license plate\<close>

lemma decode_sequence_length: "length (decode_sequence n xs) \<le> n"
  by (induction n xs rule: decode_sequence.induct) auto

lemma decode_sequence_sentinel:
  assumes "k < n" "k < length xs" "xs ! k = sentinel" "\<forall>j<k. xs ! j \<noteq> sentinel"
  shows "decode_sequence n xs = take k xs"
  using assms
proof (induction n xs arbitrary: k rule: decode_sequence.induct)
  case (1 xs)
  then show ?case by simp
next
  case (2 n)
  then show ?case by simp
next
  case (3 n x xs)
  show ?case
  proof (cases k)
    case 0
    then show ?thesis using "3.prems" by simp
  next
    case (Suc k')
    have x: "x \<noteq> sentinel" using "3.prems"(4) Suc by auto
    have "decode_sequence n xs = take k' xs"
    proof (rule "3.IH" [OF x])
      show "k' < n" "k' < length xs" "xs ! k' = sentinel"
        using "3.prems"(1-3) Suc by simp_all
      show "\<forall>j<k'. xs ! j \<noteq> sentinel"
        using "3.prems"(4) Suc by auto
    qed
    then show ?thesis using x Suc by simp
  qed
qed

text \<open>
  Claim C6. Let an output sequence have its first sentinel at a position k below the
  maximum sequence size, which is 88. Then decoding yields exactly the k entries before
  the sentinel. Decoding any sequence yields at most 88 entries.
\<close>

theorem decode_plate_sentinel:
  assumes "k < nat getMaxSequenceSize" "k < length xs" "xs ! k = sentinel"
    and "\<forall>j<k. xs ! j \<noteq> sentinel"
  shows "decode_plate xs = take k xs \<and> length (decode_plate xs) = k \<and>
         length (decode_plate ys) \<le> 88 \<and> getMaxSequenceSize = 88"
proof -
  have d: "decode_plate xs = take k xs"
    unfolding decode_plate_def using assms by (rule decode_sequence_sentinel)
  have m: "getMaxSequenceSize = 88"
    by (simp add: getMaxSequenceSize_def max_sequence_size_def)
  have "length (decode_plate ys) \<le> nat getMaxSequenceSize"
    unfolding decode_plate_def by (rule decode_sequence_length)
  then have l: "length (decode_plate ys) \<le> 88"
    using m by simp
  show ?thesis
    using d m l assms(2) by simp
qed

text \<open>The theorem at a sequence with the sentinel at position 3.\<close>

theorem decode_plate_sentinel_witness:
  "3 < nat getMaxSequenceSize \<and> 3 < length plate_output \<and> plate_output ! 3 = sentinel \<and>
   decode_plate plate_output = [3, 4, 5] \<and> length (decode_plate plate_output) = 3"
proof -
  have h: "3 < nat getMaxSequenceSize" "3 < length plate_output" "plate_output ! 3 = sentinel"
    by (simp_all add: getMaxSequenceSize_def max_sequence_size_def plate_output_def sentinel_def)
  have n: "\<forall>j<3. plate_output ! j \<noteq> sentinel"
  proof (intro allI impI)
    fix j :: nat assume "j < 3"
    then have "j = 0 \<or> j = 1 \<or> j = 2" by auto
    then show "plate_output ! j \<noteq> sentinel"
      by (auto simp: plate_output_def sentinel_def)
  qed
  from decode_plate_sentinel [OF h n]
  have "decode_plate plate_output = take 3 plate_output"
    and "length (decode_plate plate_output) = 3"
    by blast+
  then show ?thesis
    using h by (simp add: plate_output_def)
qed

end
